theory Spec2Isabelle
  imports Main "HOL-Library.AList" "HOL-Library.Multiset"
begin

section \<open>Errors and outcomes\<close>

text \<open>
  A Go \<open>error\<close> is either a gRPC status error (\<open>status.Errorf(code, ...)\<close>) or a plain
  error (\<open>fmt.Errorf\<close>, \<open>errors.New\<close>). A \<open>nil\<close> error is \<open>None\<close> of \<open>error option\<close>.
\<close>

datatype Code = OK | InvalidArgument | NotFound | AlreadyExists | PermissionDenied
  | Internal | Unknown

datatype error = StatusError Code string | PlainError string

text \<open>\<open>status.Convert(err).Code()\<close>: \<open>nil\<close> converts to \<open>OK\<close>, an error that is no status to
  \<open>Unknown\<close>.\<close>

fun status_Code :: "error option \<Rightarrow> Code" where
  "status_Code None = OK"
| "status_Code (Some (StatusError c m)) = c"
| "status_Code (Some (PlainError m)) = Unknown"

fun Code_String :: "Code \<Rightarrow> string" where
  "Code_String OK = ''OK''"
| "Code_String InvalidArgument = ''InvalidArgument''"
| "Code_String NotFound = ''NotFound''"
| "Code_String AlreadyExists = ''AlreadyExists''"
| "Code_String PermissionDenied = ''PermissionDenied''"
| "Code_String Internal = ''Internal''"
| "Code_String Unknown = ''Unknown''"

text \<open>\<open>err.Error()\<close>, which is also what \<open>%v\<close> and \<open>%s\<close> print for an error.\<close>

fun Error :: "error \<Rightarrow> string" where
  "Error (PlainError m) = m"
| "Error (StatusError c m) = ''rpc error: code = '' @ Code_String c @ '' desc = '' @ m"

text \<open>A call either returns or panics (an index out of range, a nil dereference).\<close>

datatype 'a outcome = Return 'a | Panic string

text \<open>The format \<open>'%s'\<close>: the argument between two apostrophes.\<close>

definition quoted :: "string \<Rightarrow> string" where
  "quoted s = CHR 0x27 # s @ [CHR 0x27]"

section \<open>util/db/gpgkeys.go\<close>

subsection \<open>The gpg package, the settings manager and the keyring\<close>

text \<open>
  Modelled from the spec: the type \<open>appsv1.GnuPGPublicKey\<close> is declared outside the
  sources at hand; the code reads its field \<open>KeyID\<close> only.
\<close>

record GnuPGPublicKey =
  KeyID :: string

text \<open>
  The collaborators of \<open>gpgkeys.go\<close> whose code is not part of the sources are parameters:
  the key ID normaliser \<open>gpg.KeyID\<close> (the empty string for what is no key ID), the
  validator \<open>gpg.ValidatePGPKeys\<close> (as a function of the data written to the temporary
  file), the outcome of every single gpg and file-system call, and the data of the
  ConfigMap \<open>argocd-gpg-cm\<close>. One run asks \<open>gpg.IsSecretKey\<close> about the same key more than
  once, and one of these calls may fail where another did not: whether the call fails is
  given for every call, \<open>gpg_IsSecretKey_fault env n keyID\<close> for the call about \<open>keyID\<close> that
  is made after \<open>n\<close> earlier calls of \<open>gpg.IsSecretKey\<close>. A Go map is an association list
  with distinct keys; the order in which \<open>range\<close> visits a map is not specified by Go, so
  the two \<open>range\<close> loops over maps built by the code take their order from
  \<open>range_configuredKeys\<close> and \<open>range_installedKeys\<close>. The ConfigMap data is given in the
  order its \<open>range\<close> visits it.
\<close>

record GnuPG =
  gpg_KeyID :: "string \<Rightarrow> string"
  gpg_ValidatePGPKeys :: "string \<Rightarrow> error + string list"
  gpg_GetInstalledPGPKeys_fault :: "error option"
  gpg_IsSecretKey_fault :: "nat \<Rightarrow> string \<Rightarrow> error option"
  gpg_ImportPGPKeysFromString_result :: "string \<Rightarrow> error + GnuPGPublicKey list"
  gpg_DeletePGPKey_fault :: "string \<Rightarrow> error option"
  ioutil_TempFile_fault :: "string \<Rightarrow> error option"
  ioutil_WriteFile_fault :: "string \<Rightarrow> error option"
  settingsMgr_GetConfigMapByName :: "error + (string \<times> string) list"
  range_configuredKeys :: "(string \<times> string) list \<Rightarrow> (string \<times> string) list"
  range_installedKeys ::
    "(string \<times> GnuPGPublicKey) list \<Rightarrow> (string \<times> GnuPGPublicKey) list"

text \<open>\<open>range\<close> visits every entry of a map exactly once.\<close>

definition range_visits_once :: "GnuPG \<Rightarrow> bool" where
  "range_visits_once env \<longleftrightarrow>
     (\<forall>m. mset (range_configuredKeys env m) = mset m) \<and>
     (\<forall>m. mset (range_installedKeys env m) = mset m)"

text \<open>
  The state \<open>SynchronizeGPGPublicKeys\<close> works on: the package variable \<open>syncSemaphore\<close>
  (a weighted semaphore of size one: \<open>True\<close> when its slot is taken), the keyring, the
  record of the mutating gpg calls made so far, and the key IDs that \<open>gpg.IsSecretKey\<close> has
  been asked about so far, in the order of the calls.
\<close>

datatype gpg_call = ImportCall string | DeleteCall string

record gpg_state =
  syncSemaphore :: bool
  keyring :: "(string \<times> bool) list"
  gpg_calls :: "gpg_call list"
  secretChecks :: "string list"

text \<open>
  Modelled from the spec: the keyring operations of package \<open>gpg\<close> are not part of the
  sources. The spec gives the keyring as a mapping from key ID to \<open>isSecret\<close>, with
  \<open>ListInstalled\<close>, \<open>IsSecret\<close>, \<open>Import\<close> and \<open>Delete\<close>. Listing returns every key of the
  keyring, secret or not. \<open>IsSecret\<close>, when it does not fail, answers from the keyring as
  it is at the call. An import that succeeds installs the keys it reports as
  non-secret keys and leaves a key that is already installed as it is, so that the
  secret keys are fixed, as the spec has them; a delete that succeeds removes the key. A
  call that fails leaves the keyring as it was.
\<close>

definition GetInstalledPGPKeys :: "GnuPG \<Rightarrow> gpg_state \<Rightarrow> error + GnuPGPublicKey list" where
  "GetInstalledPGPKeys env s =
     (case gpg_GetInstalledPGPKeys_fault env of
        Some err \<Rightarrow> Inl err
      | None \<Rightarrow> Inr (map (\<lambda>kv. \<lparr>KeyID = fst kv\<rparr>) (keyring s)))"

definition IsSecretKey ::
  "GnuPG \<Rightarrow> string \<Rightarrow> gpg_state \<Rightarrow> (error + bool) \<times> gpg_state" where
  "IsSecretKey env keyID s =
     (case gpg_IsSecretKey_fault env (length (secretChecks s)) keyID of
        Some err \<Rightarrow> (Inl err, s\<lparr>secretChecks := secretChecks s @ [keyID]\<rparr>)
      | None \<Rightarrow>
          (Inr (map_of (keyring s) keyID = Some True),
           s\<lparr>secretChecks := secretChecks s @ [keyID]\<rparr>))"

definition install :: "(string \<times> bool) list \<Rightarrow> string \<Rightarrow> (string \<times> bool) list" where
  "install kr keyID = (if map_of kr keyID = None then kr @ [(keyID, False)] else kr)"

definition ImportPGPKeysFromString ::
  "GnuPG \<Rightarrow> string \<Rightarrow> gpg_state \<Rightarrow> (error + GnuPGPublicKey list) \<times> gpg_state" where
  "ImportPGPKeysFromString env keyData s =
     (case gpg_ImportPGPKeysFromString_result env keyData of
        Inl err \<Rightarrow> (Inl err, s\<lparr>gpg_calls := gpg_calls s @ [ImportCall keyData]\<rparr>)
      | Inr keys \<Rightarrow>
          (Inr keys, s\<lparr>keyring := foldl install (keyring s) (map KeyID keys),
                       gpg_calls := gpg_calls s @ [ImportCall keyData]\<rparr>))"

definition DeletePGPKey :: "GnuPG \<Rightarrow> string \<Rightarrow> gpg_state \<Rightarrow> error option \<times> gpg_state" where
  "DeletePGPKey env keyID s =
     (case gpg_DeletePGPKey_fault env keyID of
        Some err \<Rightarrow> (Some err, s\<lparr>gpg_calls := gpg_calls s @ [DeleteCall keyID]\<rparr>)
      | None \<Rightarrow>
          (None, s\<lparr>keyring := AList.delete keyID (keyring s),
                    gpg_calls := gpg_calls s @ [DeleteCall keyID]\<rparr>))"

subsection \<open>validatePGPKey and ListConfiguredGPGPublicKeys\<close>

definition validatePGPKey :: "GnuPG \<Rightarrow> string \<Rightarrow> error + string" where
  "validatePGPKey env keyData =
     (case ioutil_TempFile_fault env keyData of
        Some err \<Rightarrow> Inl err
      | None \<Rightarrow>
     (case ioutil_WriteFile_fault env keyData of
        Some err \<Rightarrow> Inl err
      | None \<Rightarrow>
     (case gpg_ValidatePGPKeys env keyData of
        Inl err \<Rightarrow> Inl err
      | Inr parsed \<Rightarrow>
          if length parsed \<noteq> 1 then Inl (PlainError ''More than one key found in input data'')
          else Inr (parsed ! 0))))"

text \<open>The loop over \<open>keysCM.Data\<close>; \<open>result\<close> is the map built so far.\<close>

fun configuredLoop ::
  "GnuPG \<Rightarrow> (string \<times> string) list \<Rightarrow> (string \<times> string) list \<Rightarrow>
   error + (string \<times> string) list" where
  "configuredLoop env [] result = Inr result"
| "configuredLoop env ((k, p) # data) result =
     (if gpg_KeyID env k \<noteq> [] then
        (case validatePGPKey env p of
           Inl err \<Rightarrow>
             Inl (PlainError (''Could not parse GPG key for entry '' @ quoted (gpg_KeyID env k)
                    @ '': '' @ Error err))
         | Inr parsedKeyID \<Rightarrow>
             if gpg_KeyID env k \<noteq> parsedKeyID then
               Inl (PlainError (''Key parsed for entry with key ID '' @ quoted (gpg_KeyID env k)
                      @ '' had different key ID '' @ quoted parsedKeyID))
             else configuredLoop env data (AList.update parsedKeyID p result))
      else
        Inl (PlainError (''Found entry with key '' @ quoted k
               @ '' in ConfigMap, but this is not a valid PGP key ID'')))"

definition ListConfiguredGPGPublicKeys :: "GnuPG \<Rightarrow> error + (string \<times> string) list" where
  "ListConfiguredGPGPublicKeys env =
     (case settingsMgr_GetConfigMapByName env of
        Inl err \<Rightarrow> Inl err
      | Inr keysCM_Data \<Rightarrow> configuredLoop env keysCM_Data [])"

subsection \<open>ListInstalledGPGPublicKeys\<close>

text \<open>The loop over the keys of the keyring; \<open>result\<close> is the map built so far.\<close>

fun installedLoop ::
  "GnuPG \<Rightarrow> GnuPGPublicKey list \<Rightarrow> (string \<times> GnuPGPublicKey) list \<Rightarrow> gpg_state \<Rightarrow>
   (error + (string \<times> GnuPGPublicKey) list) \<times> gpg_state" where
  "installedLoop env [] result s = (Inr result, s)"
| "installedLoop env (v # keys) result s =
     (case IsSecretKey env (KeyID v) s of
        (Inr isSecret, s1) \<Rightarrow>
          if \<not> isSecret then installedLoop env keys (AList.update (KeyID v) v result) s1
          else installedLoop env keys result s1
      | (Inl err, s1) \<Rightarrow> (Inl err, s1))"

definition ListInstalledGPGPublicKeys ::
  "GnuPG \<Rightarrow> gpg_state \<Rightarrow> (error + (string \<times> GnuPGPublicKey) list) \<times> gpg_state" where
  "ListInstalledGPGPublicKeys env s =
     (case GetInstalledPGPKeys env s of
        Inl err \<Rightarrow> (Inl err, s)
      | Inr keys \<Rightarrow> installedLoop env keys [] s)"

subsection \<open>SynchronizeGPGPublicKeys\<close>

text \<open>
  The import loop. A failed import is logged and the loop goes on; so is an import that
  reports another key ID than the configured one. \<open>importedKeys[0]\<close> panics when an
  import reports success and no key. Logging is not part of the state.
\<close>

fun importLoop ::
  "GnuPG \<Rightarrow> (string \<times> GnuPGPublicKey) list \<Rightarrow> (string \<times> string) list \<Rightarrow> gpg_state \<Rightarrow>
   unit outcome \<times> gpg_state" where
  "importLoop env installedKeys [] s = (Return (), s)"
| "importLoop env installedKeys ((keyID, keyData) # configured) s =
     (if map_of installedKeys keyID = None then
        (case ImportPGPKeysFromString env keyData s of
           (Inl err, s') \<Rightarrow> importLoop env installedKeys configured s'
         | (Inr importedKeys, s') \<Rightarrow>
             (case importedKeys of
                [] \<Rightarrow> (Panic ''index out of range'', s')
              | key0 # _ \<Rightarrow> importLoop env installedKeys configured s'))
      else importLoop env installedKeys configured s)"

text \<open>
  The delete loop, with its second check that the key is not a secret one. A failed
  delete is logged and the loop goes on; after a failed check, which is logged too, the
  key is not deleted and the loop goes on.
\<close>

fun deleteLoop ::
  "GnuPG \<Rightarrow> (string \<times> string) list \<Rightarrow> (string \<times> GnuPGPublicKey) list \<Rightarrow> gpg_state \<Rightarrow>
   gpg_state" where
  "deleteLoop env configuredKeys [] s = s"
| "deleteLoop env configuredKeys ((keyID, v) # installed) s =
     (if map_of configuredKeys keyID = None then
        (case IsSecretKey env keyID s of
           (Inr isSecret, s1) \<Rightarrow>
             if \<not> isSecret then
               deleteLoop env configuredKeys installed (snd (DeletePGPKey env keyID s1))
             else deleteLoop env configuredKeys installed s1
         | (Inl err, s1) \<Rightarrow> deleteLoop env configuredKeys installed s1)
      else deleteLoop env configuredKeys installed s)"

text \<open>
  \<open>TryAcquire\<close> fails when the slot is taken; the deferred \<open>Release\<close> runs on every way
  out of the body, a panic included.
\<close>

definition SynchronizeGPGPublicKeys ::
  "GnuPG \<Rightarrow> gpg_state \<Rightarrow> error option outcome \<times> gpg_state" where
  "SynchronizeGPGPublicKeys env s =
     (if syncSemaphore s then
        (Return (Some (PlainError ''GnuPG database is locked, try again.'')), s)
      else
        (let s0 = s\<lparr>syncSemaphore := True\<rparr>;
             (res, s') =
               (case ListConfiguredGPGPublicKeys env of
                  Inl err \<Rightarrow> (Return (Some err), s0)
                | Inr configuredKeys \<Rightarrow>
                   (case ListInstalledGPGPublicKeys env s0 of
                      (Inl err, s1) \<Rightarrow> (Return (Some err), s1)
                    | (Inr installedKeys, s1) \<Rightarrow>
                       (case importLoop env installedKeys
                               (range_configuredKeys env configuredKeys) s1 of
                          (Panic msg, s2) \<Rightarrow> (Panic msg, s2)
                        | (Return u, s2) \<Rightarrow>
                            (Return None,
                             deleteLoop env configuredKeys
                               (range_installedKeys env installedKeys) s2))))
         in (res, s'\<lparr>syncSemaphore := False\<rparr>)))"

subsection \<open>What the claims about the keyring speak of\<close>

text \<open>
  An entry \<open>(k, p)\<close> of the ConfigMap is rejected when \<open>k\<close> is no key ID, when its data
  cannot be written out or does not validate, when the validator finds another number of
  keys than one, or when the one key found has another ID than the entry declares.
\<close>

definition entry_rejected :: "GnuPG \<Rightarrow> string \<Rightarrow> string \<Rightarrow> bool" where
  "entry_rejected env k p \<longleftrightarrow>
     gpg_KeyID env k = [] \<or>
     ioutil_TempFile_fault env p \<noteq> None \<or>
     ioutil_WriteFile_fault env p \<noteq> None \<or>
     (case gpg_ValidatePGPKeys env p of
        Inl err \<Rightarrow> True
      | Inr parsed \<Rightarrow> length parsed \<noteq> 1 \<or> parsed ! 0 \<noteq> gpg_KeyID env k)"

text \<open>The entries of the ConfigMap under their normalised key IDs.\<close>

definition declared :: "GnuPG \<Rightarrow> (string \<times> string) list \<Rightarrow> (string \<times> string) list" where
  "declared env data = map (\<lambda>kp. (gpg_KeyID env (fst kp), snd kp)) data"

text \<open>
  An example: the keys \<open>A\<close> and \<open>B\<close> are configured; \<open>range\<close> visits maps back to front;
  no call fails.
\<close>

definition exampleGnuPG :: GnuPG where
  "exampleGnuPG =
     \<lparr>gpg_KeyID = (\<lambda>k. if k \<in> set [''A'', ''B'', ''C'', ''S''] then k else []),
      gpg_ValidatePGPKeys =
        (\<lambda>p. if p = ''key A'' then Inr [''A'']
             else if p = ''key B'' then Inr [''B'']
             else if p = ''key S'' then Inr [''S'']
             else Inl (PlainError ''no valid OpenPGP data found'')),
      gpg_GetInstalledPGPKeys_fault = None,
      gpg_IsSecretKey_fault = (\<lambda>n k. None),
      gpg_ImportPGPKeysFromString_result =
        (\<lambda>p. if p = ''key A'' then Inr [\<lparr>KeyID = ''A''\<rparr>]
             else if p = ''key B'' then Inr [\<lparr>KeyID = ''B''\<rparr>]
             else if p = ''key S'' then Inr [\<lparr>KeyID = ''S''\<rparr>]
             else Inl (PlainError ''no valid OpenPGP data found'')),
      gpg_DeletePGPKey_fault = (\<lambda>k. None),
      ioutil_TempFile_fault = (\<lambda>p. None),
      ioutil_WriteFile_fault = (\<lambda>p. None),
      settingsMgr_GetConfigMapByName = Inr [(''A'', ''key A''), (''B'', ''key B'')],
      range_configuredKeys = rev,
      range_installedKeys = rev\<rparr>"

text \<open>
  The non-secret part of a keyring, as the list of its key IDs.
\<close>

definition nonSecretKeys :: "(string \<times> bool) list \<Rightarrow> string list" where
  "nonSecretKeys kr = filter (\<lambda>k. map_of kr k = Some False) (map fst kr)"

text \<open>
  The calls a run has added to the record, and what it means for one of them to have
  succeeded: a delete reports no error; an import reports no error and reports the keys
  that the validator finds in the same data.
\<close>

definition new_calls :: "gpg_state \<Rightarrow> gpg_state \<Rightarrow> gpg_call list" where
  "new_calls s s' = drop (length (gpg_calls s)) (gpg_calls s')"

fun call_succeeds :: "GnuPG \<Rightarrow> gpg_call \<Rightarrow> bool" where
  "call_succeeds env (ImportCall keyData) =
     (case gpg_ImportPGPKeysFromString_result env keyData of
        Inl err \<Rightarrow> False
      | Inr keys \<Rightarrow> gpg_ValidatePGPKeys env keyData = Inr (map KeyID keys))"
| "call_succeeds env (DeleteCall keyID) = (gpg_DeletePGPKey_fault env keyID = None)"

text \<open>
  The checks for a secret key that a run from \<open>s\<close> to \<open>s'\<close> has made are the calls of
  \<open>gpg.IsSecretKey\<close> that \<open>s'\<close> records beyond those of \<open>s\<close>; they have all succeeded when
  none of them has failed.
\<close>

definition checks_succeed :: "GnuPG \<Rightarrow> gpg_state \<Rightarrow> gpg_state \<Rightarrow> bool" where
  "checks_succeed env s s' \<longleftrightarrow>
     (\<forall>n \<in> {length (secretChecks s)..<length (secretChecks s')}.
        gpg_IsSecretKey_fault env n (secretChecks s' ! n) = None)"

text \<open>What a run leaves of a secret key \<open>i\<close>: the key stays, and no delete names it.\<close>

definition untouched :: "string \<Rightarrow> gpg_state \<Rightarrow> gpg_state \<Rightarrow> bool" where
  "untouched i s s' \<longleftrightarrow>
     map_of (keyring s') i = Some True \<and> syncSemaphore s' = syncSemaphore s \<and>
     (\<exists>new. gpg_calls s' = gpg_calls s @ new \<and> DeleteCall i \<notin> set new)"

text \<open>
  The example of the spec: the keys \<open>A\<close> and \<open>B\<close> are declared, the keyring holds \<open>B\<close>,
  \<open>C\<close> and the secret key \<open>S\<close>. After the run the keyring holds \<open>A\<close>, \<open>B\<close> and \<open>S\<close>.
\<close>

definition exampleState :: gpg_state where
  "exampleState =
     \<lparr>syncSemaphore = False,
      keyring = [(''B'', False), (''C'', False), (''S'', True)],
      gpg_calls = [], secretChecks = []\<rparr>"

definition exampleReconciled :: gpg_state where
  "exampleReconciled =
     \<lparr>syncSemaphore = False,
      keyring = [(''B'', False), (''S'', True), (''A'', False)],
      gpg_calls = [ImportCall ''key A'', DeleteCall ''C''],
      secretChecks = [''B'', ''C'', ''S'', ''C'']\<rparr>"

text \<open>A ConfigMap that declares the ID of the secret key of the keyring.\<close>

definition secretDeclaredGnuPG :: GnuPG where
  "secretDeclaredGnuPG =
     exampleGnuPG\<lparr>settingsMgr_GetConfigMapByName := Inr [(''S'', ''key S'')]\<rparr>"

definition secretOnlyState :: gpg_state where
  "secretOnlyState =
     \<lparr>syncSemaphore = False, keyring = [(''S'', True)], gpg_calls = [], secretChecks = []\<rparr>"

definition secretOnlyReconciled :: gpg_state where
  "secretOnlyReconciled =
     \<lparr>syncSemaphore = False, keyring = [(''S'', True)], gpg_calls = [ImportCall ''key S''],
      secretChecks = [''S'']\<rparr>"

text \<open>
  The example once more, with a check that fails: the listing of the installed keys asks
  about \<open>B\<close>, \<open>C\<close> and \<open>S\<close>, and the call after these three, which is the second check of
  \<open>C\<close> in the delete loop, fails. The run imports \<open>A\<close> and keeps \<open>C\<close>.
\<close>

definition failedCheckGnuPG :: GnuPG where
  "failedCheckGnuPG =
     exampleGnuPG\<lparr>gpg_IsSecretKey_fault :=
       (\<lambda>n k. if n = 3 then Some (PlainError ''gpg: keyring is locked'') else None)\<rparr>"

definition failedCheckReconciled :: gpg_state where
  "failedCheckReconciled =
     \<lparr>syncSemaphore = False,
      keyring = [(''B'', False), (''C'', False), (''S'', True), (''A'', False)],
      gpg_calls = [ImportCall ''key A''],
      secretChecks = [''B'', ''C'', ''S'', ''C'']\<rparr>"

section \<open>The repository service\<close>

subsection \<open>Records of the API\<close>

text \<open>
  Modelled from the spec: the types of package \<open>appsv1\<close> and of the generated package
  \<open>repositorypkg\<close> are declared outside the sources at hand. The records hold the fields
  that the code of the service reads or writes; \<open>ConnectionStatus\<close> is a string type,
  whose zero value is the empty string, and a \<open>*metav1.Time\<close> is an optional reading of
  the clock. A string field that is absent is the empty string, a flag that is absent
  is \<open>False\<close>.
\<close>

record ConnectionState =
  Status :: string
  Message :: string
  ModifiedAt :: "nat option"

definition ConnectionStatusSuccessful :: string where
  "ConnectionStatusSuccessful = ''Successful''"

definition ConnectionStatusFailed :: string where
  "ConnectionStatusFailed = ''Failed''"

record Repository =
  Repo :: string
  Username :: string
  Password :: string
  SSHPrivateKey :: string
  ConnectionState :: ConnectionState
  Insecure :: bool
  EnableLFS :: bool
  TLSClientCertData :: string
  TLSClientCertKey :: string

record RepositoryList =
  Items :: "Repository list"

record RepoCreateRequest =
  Repo :: Repository
  Upsert :: bool

record RepoUpdateRequest =
  Repo :: Repository

record RepoQuery =
  Repo :: string
  ForceRefresh :: bool

text \<open>The composite literal \<open>appsv1.Repository{Repo: url}\<close>: every other field is zero.\<close>

definition Repository_of_URL :: "string \<Rightarrow> Repository" where
  "Repository_of_URL url =
     \<lparr>Repository.Repo = url, Username = [], Password = [], SSHPrivateKey = [],
      ConnectionState = \<lparr>Status = [], Message = [], ModifiedAt = None\<rparr>,
      Insecure = False, EnableLFS = False, TLSClientCertData = [], TLSClientCertKey = []\<rparr>"

subsection \<open>The collaborators of the service\<close>

text \<open>
  What the \<open>Server\<close> holds or calls and whose code is not part of the sources is a
  parameter: the decision of the RBAC enforcer for subject, resource, action and object;
  the methods \<open>HasCredentials\<close>, \<open>CopyCredentialsFrom\<close> and \<open>IsInsecure\<close> of
  \<open>appsv1.Repository\<close>; \<open>argo.GetRepoCreds\<close> into credentials of a type \<open>'c\<close> that the
  service never looks into (its argument may be \<open>nil\<close>); the connection test
  \<open>git.TestRepo\<close>; whether a call to the storage or to the cache fails for a reason
  of its own (the storage cannot be reached, say), and with which error; and the reading
  of the clock.
\<close>

datatype db_call =
    ListRepoURLsCall
  | GetRepositoryCall string
  | CreateRepositoryCall string
  | UpdateRepositoryCall string
  | DeleteRepositoryCall string
  | GetRepositoryCredentialsCall string
  | CreateRepositoryCredentialsCall string
  | UpdateRepositoryCredentialsCall string
  | DeleteRepositoryCredentialsCall string

record 'c Server =
  enf_Enforce :: "string \<Rightarrow> string \<Rightarrow> string \<Rightarrow> string \<Rightarrow> bool"
  Repository_HasCredentials :: "Repository \<Rightarrow> bool"
  Repository_CopyCredentialsFrom :: "Repository \<Rightarrow> Repository \<Rightarrow> Repository"
  Repository_IsInsecure :: "Repository \<Rightarrow> bool"
  argo_GetRepoCreds :: "Repository option \<Rightarrow> 'c"
  git_TestRepo :: "string \<Rightarrow> 'c \<Rightarrow> bool \<Rightarrow> bool \<Rightarrow> error option"
  db_fault :: "db_call \<Rightarrow> error option"
  cache_GetRepoConnectionState_fault :: "string \<Rightarrow> error option"
  cache_SetRepoConnectionState_fault :: "string \<Rightarrow> error option"
  metav1_Now :: nat

text \<open>
  Modelled from the spec: the constants of package \<open>rbacpolicy\<close> and the method
  \<open>EnforceErr\<close> of the enforcer are not part of the sources. The spec names the resource
  \<open>repositories\<close> and says that a denial fails the call with a permission error.
\<close>

definition ResourceRepositories :: string where
  "ResourceRepositories = ''repositories''"

definition ActionGet :: string where
  "ActionGet = ''get''"

definition ActionCreate :: string where
  "ActionCreate = ''create''"

definition ActionUpdate :: string where
  "ActionUpdate = ''update''"

definition ActionDelete :: string where
  "ActionDelete = ''delete''"

definition enf_EnforceErr ::
  "'c Server \<Rightarrow> string \<Rightarrow> string \<Rightarrow> string \<Rightarrow> string \<Rightarrow> error option" where
  "enf_EnforceErr srv claims resource action object =
     (if enf_Enforce srv claims resource action object then None
      else Some (StatusError PermissionDenied ''permission denied''))"

subsection \<open>The storage and the cache\<close>

text \<open>
  The state the service works on: the repository records and the credential records of
  the storage, each a list of records under their URLs, the cache of connection states,
  and the record of the calls made to the storage so far, reads included.
\<close>

record store =
  repositories :: "(string \<times> Repository) list"
  repositoryCredentials :: "(string \<times> Repository) list"
  connectionStates :: "string \<rightharpoonup> ConnectionState"
  db_calls :: "db_call list"

definition called :: "db_call \<Rightarrow> store \<Rightarrow> store" where
  "called c s = s\<lparr>db_calls := db_calls s @ [c]\<rparr>"

text \<open>
  Modelled from the spec: the methods of \<open>db.ArgoDB\<close> for repositories are not part of the
  sources. The spec gives the storage as record-level get, list, create, update and
  delete, keyed by URL, with \<open>already exists\<close> as a distinguishable conflict error of
  create and \<open>not found\<close> for a URL that is not stored. A get returns a copy of the record
  as it was stored. A call that fails, by a fault of the storage or by its own check,
  returns no record and changes nothing.
\<close>

definition db_ListRepoURLs :: "'c Server \<Rightarrow> store \<Rightarrow> (error + string list) \<times> store" where
  "db_ListRepoURLs srv s =
     (case db_fault srv ListRepoURLsCall of
        Some err \<Rightarrow> (Inl err, called ListRepoURLsCall s)
      | None \<Rightarrow> (Inr (map fst (repositories s)), called ListRepoURLsCall s))"

definition db_GetRepository ::
  "'c Server \<Rightarrow> string \<Rightarrow> store \<Rightarrow> (error + Repository) \<times> store" where
  "db_GetRepository srv url s =
     (case db_fault srv (GetRepositoryCall url) of
        Some err \<Rightarrow> (Inl err, called (GetRepositoryCall url) s)
      | None \<Rightarrow>
         (case map_of (repositories s) url of
            None \<Rightarrow> (Inl (StatusError NotFound (''repo '' @ quoted url @ '' not found'')),
                     called (GetRepositoryCall url) s)
          | Some r \<Rightarrow> (Inr r, called (GetRepositoryCall url) s)))"

definition db_CreateRepository ::
  "'c Server \<Rightarrow> Repository \<Rightarrow> store \<Rightarrow> (error + Repository) \<times> store" where
  "db_CreateRepository srv r s =
     (case db_fault srv (CreateRepositoryCall (Repository.Repo r)) of
        Some err \<Rightarrow> (Inl err, called (CreateRepositoryCall (Repository.Repo r)) s)
      | None \<Rightarrow>
         (case map_of (repositories s) (Repository.Repo r) of
            Some existing \<Rightarrow>
              (Inl (StatusError AlreadyExists
                      (''repository '' @ quoted (Repository.Repo r) @ '' already exists'')),
               called (CreateRepositoryCall (Repository.Repo r)) s)
          | None \<Rightarrow>
              (Inr r,
               called (CreateRepositoryCall (Repository.Repo r))
                 (s\<lparr>repositories := repositories s @ [(Repository.Repo r, r)]\<rparr>))))"

definition db_UpdateRepository ::
  "'c Server \<Rightarrow> Repository \<Rightarrow> store \<Rightarrow> (error + Repository) \<times> store" where
  "db_UpdateRepository srv r s =
     (case db_fault srv (UpdateRepositoryCall (Repository.Repo r)) of
        Some err \<Rightarrow> (Inl err, called (UpdateRepositoryCall (Repository.Repo r)) s)
      | None \<Rightarrow>
         (case map_of (repositories s) (Repository.Repo r) of
            None \<Rightarrow>
              (Inl (StatusError NotFound
                      (''repo '' @ quoted (Repository.Repo r) @ '' not found'')),
               called (UpdateRepositoryCall (Repository.Repo r)) s)
          | Some existing \<Rightarrow>
              (Inr r,
               called (UpdateRepositoryCall (Repository.Repo r))
                 (s\<lparr>repositories := AList.update (Repository.Repo r) r (repositories s)\<rparr>))))"

definition db_DeleteRepository :: "'c Server \<Rightarrow> string \<Rightarrow> store \<Rightarrow> error option \<times> store" where
  "db_DeleteRepository srv url s =
     (case db_fault srv (DeleteRepositoryCall url) of
        Some err \<Rightarrow> (Some err, called (DeleteRepositoryCall url) s)
      | None \<Rightarrow>
         (case map_of (repositories s) url of
            None \<Rightarrow>
              (Some (StatusError NotFound (''repo '' @ quoted url @ '' not found'')),
               called (DeleteRepositoryCall url) s)
          | Some existing \<Rightarrow>
              (None,
               called (DeleteRepositoryCall url)
                 (s\<lparr>repositories := AList.delete url (repositories s)\<rparr>))))"

text \<open>
  Modelled from the spec: the methods of \<open>db.ArgoDB\<close> for credential records are not part
  of the sources. The spec keys the credential records by URL prefix and asks for a
  deterministic match: here the first of the records with the longest URL that is a
  prefix of the repository URL, and \<open>nil\<close> without an error when no record matches.
\<close>

definition longer :: "string \<times> Repository \<Rightarrow> string \<times> Repository \<Rightarrow> string \<times> Repository" where
  "longer best c = (if length (fst best) < length (fst c) then c else best)"

definition matchingCredentials :: "(string \<times> Repository) list \<Rightarrow> string \<Rightarrow> Repository option" where
  "matchingCredentials creds url =
     (case filter (\<lambda>c. take (length (fst c)) url = fst c) creds of
        [] \<Rightarrow> None
      | c # cs \<Rightarrow> Some (snd (foldl longer c cs)))"

definition db_GetRepositoryCredentials ::
  "'c Server \<Rightarrow> string \<Rightarrow> store \<Rightarrow> (error + Repository option) \<times> store" where
  "db_GetRepositoryCredentials srv url s =
     (case db_fault srv (GetRepositoryCredentialsCall url) of
        Some err \<Rightarrow> (Inl err, called (GetRepositoryCredentialsCall url) s)
      | None \<Rightarrow>
         (Inr (matchingCredentials (repositoryCredentials s) url),
          called (GetRepositoryCredentialsCall url) s))"

definition db_CreateRepositoryCredentials ::
  "'c Server \<Rightarrow> Repository \<Rightarrow> store \<Rightarrow> (error + Repository) \<times> store" where
  "db_CreateRepositoryCredentials srv r s =
     (case db_fault srv (CreateRepositoryCredentialsCall (Repository.Repo r)) of
        Some err \<Rightarrow> (Inl err, called (CreateRepositoryCredentialsCall (Repository.Repo r)) s)
      | None \<Rightarrow>
         (case map_of (repositoryCredentials s) (Repository.Repo r) of
            Some existing \<Rightarrow>
              (Inl (StatusError AlreadyExists
                      (''repository credentials '' @ quoted (Repository.Repo r)
                         @ '' already exists'')),
               called (CreateRepositoryCredentialsCall (Repository.Repo r)) s)
          | None \<Rightarrow>
              (Inr r,
               called (CreateRepositoryCredentialsCall (Repository.Repo r))
                 (s\<lparr>repositoryCredentials :=
                      repositoryCredentials s @ [(Repository.Repo r, r)]\<rparr>))))"

definition db_UpdateRepositoryCredentials ::
  "'c Server \<Rightarrow> Repository \<Rightarrow> store \<Rightarrow> (error + Repository) \<times> store" where
  "db_UpdateRepositoryCredentials srv r s =
     (case db_fault srv (UpdateRepositoryCredentialsCall (Repository.Repo r)) of
        Some err \<Rightarrow> (Inl err, called (UpdateRepositoryCredentialsCall (Repository.Repo r)) s)
      | None \<Rightarrow>
         (case map_of (repositoryCredentials s) (Repository.Repo r) of
            None \<Rightarrow>
              (Inl (StatusError NotFound
                      (''repository credentials '' @ quoted (Repository.Repo r)
                         @ '' not found'')),
               called (UpdateRepositoryCredentialsCall (Repository.Repo r)) s)
          | Some existing \<Rightarrow>
              (Inr r,
               called (UpdateRepositoryCredentialsCall (Repository.Repo r))
                 (s\<lparr>repositoryCredentials :=
                      AList.update (Repository.Repo r) r (repositoryCredentials s)\<rparr>))))"

definition db_DeleteRepositoryCredentials ::
  "'c Server \<Rightarrow> string \<Rightarrow> store \<Rightarrow> error option \<times> store" where
  "db_DeleteRepositoryCredentials srv url s =
     (case db_fault srv (DeleteRepositoryCredentialsCall url) of
        Some err \<Rightarrow> (Some err, called (DeleteRepositoryCredentialsCall url) s)
      | None \<Rightarrow>
         (case map_of (repositoryCredentials s) url of
            None \<Rightarrow>
              (Some (StatusError NotFound
                       (''repository credentials '' @ quoted url @ '' not found'')),
               called (DeleteRepositoryCredentialsCall url) s)
          | Some existing \<Rightarrow>
              (None,
               called (DeleteRepositoryCredentialsCall url)
                 (s\<lparr>repositoryCredentials := AList.delete url (repositoryCredentials s)\<rparr>))))"

text \<open>
  Modelled from the spec: the cache of package \<open>cache\<close> is not part of the sources. The
  spec gives it as a map from URL to the last connection state, with a get that misses
  and a set that takes a state or \<open>nil\<close>; a call that fails changes nothing.
\<close>

definition cache_GetRepoConnectionState ::
  "'c Server \<Rightarrow> string \<Rightarrow> store \<Rightarrow> error + ConnectionState" where
  "cache_GetRepoConnectionState srv url s =
     (case cache_GetRepoConnectionState_fault srv url of
        Some err \<Rightarrow> Inl err
      | None \<Rightarrow>
         (case connectionStates s url of
            None \<Rightarrow> Inl (PlainError ''cache: key is missing'')
          | Some connectionState \<Rightarrow> Inr connectionState))"

definition cache_SetRepoConnectionState ::
  "'c Server \<Rightarrow> string \<Rightarrow> ConnectionState option \<Rightarrow> store \<Rightarrow> error option \<times> store" where
  "cache_SetRepoConnectionState srv url state s =
     (case cache_SetRepoConnectionState_fault srv url of
        Some err \<Rightarrow> (Some err, s)
      | None \<Rightarrow> (None, s\<lparr>connectionStates := (connectionStates s)(url := state)\<rparr>))"

subsection \<open>getConnectionState and ListRepositories\<close>

text \<open>
  \<open>getConnectionState\<close> returns a connection state and nothing else. \<open>probe\<close> is the part
  of the function after the look into the cache: the error of the lookup of the
  repository and the error of the connection test go through the same variable \<open>err\<close>.
  A failed write to the cache is logged; logging is not part of the state.
\<close>

definition getConnectionState ::
  "'c Server \<Rightarrow> string \<Rightarrow> bool \<Rightarrow> store \<Rightarrow> ConnectionState \<times> store" where
  "getConnectionState srv url forceRefresh s =
     (let probe =
        (let connectionState =
               \<lparr>Status = ConnectionStatusSuccessful, Message = [],
                ModifiedAt = Some (metav1_Now srv)\<rparr>;
             (repo, s1) = db_GetRepository srv url s;
             err = (case repo of
                      Inl err \<Rightarrow> Some err
                    | Inr repo \<Rightarrow>
                        git_TestRepo srv (Repository.Repo repo)
                          (argo_GetRepoCreds srv (Some repo))
                          (Repository_IsInsecure srv repo) (EnableLFS repo));
             connectionState' =
               (case err of
                  Some err \<Rightarrow>
                    connectionState
                      \<lparr>Status := ConnectionStatusFailed,
                       Message := ''Unable to connect to repository: '' @ Error err\<rparr>
                | None \<Rightarrow> connectionState);
             (setErr, s2) = cache_SetRepoConnectionState srv url (Some connectionState') s1
         in (connectionState', s2))
      in if \<not> forceRefresh then
           (case cache_GetRepoConnectionState srv url s of
              Inr connectionState \<Rightarrow> (connectionState, s)
            | Inl err \<Rightarrow> probe)
         else probe)"

text \<open>The loop of \<open>ListRepositories\<close> over the URLs; \<open>items\<close> are the records gathered so far.\<close>

fun listItems ::
  "'c Server \<Rightarrow> string \<Rightarrow> string list \<Rightarrow> Repository list \<Rightarrow> store \<Rightarrow>
   (error + Repository list) \<times> store" where
  "listItems srv claims [] items s = (Inr items, s)"
| "listItems srv claims (url # urls) items s =
     (if enf_Enforce srv claims ResourceRepositories ActionGet url then
        (case db_GetRepository srv url s of
           (Inl err, s1) \<Rightarrow> (Inl err, s1)
         | (Inr repo, s1) \<Rightarrow>
             listItems srv claims urls
               (items @ [(Repository_of_URL url)
                           \<lparr>Username := Username repo,
                            Insecure := Repository_IsInsecure srv repo,
                            EnableLFS := EnableLFS repo\<rparr>]) s1)
      else listItems srv claims urls items s)"

text \<open>
  \<open>util.RunAllAsync\<close> runs one probe for every item and waits for all of them; the
  function it is given never returns an error. The probes are taken one after the other
  here.
\<close>

fun probeItems ::
  "'c Server \<Rightarrow> bool \<Rightarrow> Repository list \<Rightarrow> store \<Rightarrow> Repository list \<times> store" where
  "probeItems srv forceRefresh [] s = ([], s)"
| "probeItems srv forceRefresh (item # items) s =
     (case getConnectionState srv (Repository.Repo item) forceRefresh s of
        (connectionState, s1) \<Rightarrow>
          (case probeItems srv forceRefresh items s1 of
             (probed, s2) \<Rightarrow> (item\<lparr>ConnectionState := connectionState\<rparr> # probed, s2)))"

definition ListRepositories ::
  "'c Server \<Rightarrow> string \<Rightarrow> RepoQuery \<Rightarrow> store \<Rightarrow>
   (RepositoryList option \<times> error option) \<times> store" where
  "ListRepositories srv claims q s =
     (case db_ListRepoURLs srv s of
        (Inl err, s1) \<Rightarrow> ((None, Some err), s1)
      | (Inr urls, s1) \<Rightarrow>
         (case listItems srv claims urls [] s1 of
            (Inl err, s2) \<Rightarrow> ((None, Some err), s2)
          | (Inr items, s2) \<Rightarrow>
             (case probeItems srv (ForceRefresh q) items s2 of
                (probed, s3) \<Rightarrow> ((Some \<lparr>Items = probed\<rparr>, None), s3))))"

subsection \<open>UpdateRepository and CreateRepository\<close>

text \<open>The error of a storage call, \<open>nil\<close> when it returned a record.\<close>

fun err_of :: "error + 'a \<Rightarrow> error option" where
  "err_of (Inl err) = Some err"
| "err_of (Inr r) = None"

definition UpdateRepository ::
  "'c Server \<Rightarrow> string \<Rightarrow> RepoUpdateRequest \<Rightarrow> store \<Rightarrow>
   (Repository option \<times> error option) \<times> store" where
  "UpdateRepository srv claims q s =
     (case enf_EnforceErr srv claims ResourceRepositories ActionUpdate
             (Repository.Repo (RepoUpdateRequest.Repo q)) of
        Some err \<Rightarrow> ((None, Some err), s)
      | None \<Rightarrow>
         (case db_UpdateRepository srv (RepoUpdateRequest.Repo q) s of
            (updated, s1) \<Rightarrow>
              ((Some (Repository_of_URL (Repository.Repo (RepoUpdateRequest.Repo q))),
                err_of updated), s1)))"

text \<open>
  \<open>r\<close> is the record of the request; \<open>r'\<close> is \<open>r\<close> after the assignment to its
  \<open>ConnectionState\<close>. \<open>reflect.DeepEqual\<close> of two records is their equality. The last line
  of the function reads \<open>repo.Repo\<close>: when the storage has returned an error that is not
  \<open>AlreadyExists\<close>, \<open>repo\<close> is \<open>nil\<close> and the call panics.
\<close>

definition CreateRepository ::
  "'c Server \<Rightarrow> string \<Rightarrow> RepoCreateRequest \<Rightarrow> store \<Rightarrow>
   (Repository option \<times> error option) outcome \<times> store" where
  "CreateRepository srv claims q s =
     (case enf_EnforceErr srv claims ResourceRepositories ActionCreate
             (Repository.Repo (RepoCreateRequest.Repo q)) of
        Some err \<Rightarrow> (Return (None, Some err), s)
      | None \<Rightarrow>
         (let r = RepoCreateRequest.Repo q in
          case (if \<not> Repository_HasCredentials srv r then
                  db_GetRepositoryCredentials srv (Repository.Repo r) s
                else
                  (Inr (Some (Repository_CopyCredentialsFrom srv
                                (Repository_of_URL (Repository.Repo r)) r)), s)) of
            (Inl err, s1) \<Rightarrow> (Return (None, Some err), s1)
          | (Inr repo, s1) \<Rightarrow>
             (case git_TestRepo srv (Repository.Repo r) (argo_GetRepoCreds srv repo)
                     (Repository_IsInsecure srv r) (EnableLFS r) of
                Some err \<Rightarrow> (Return (None, Some err), s1)
              | None \<Rightarrow>
                 (let r' = r\<lparr>ConnectionState :=
                               \<lparr>Status = ConnectionStatusSuccessful, Message = [],
                                ModifiedAt = None\<rparr>\<rparr>
                  in case db_CreateRepository srv r' s1 of
                    (created, s2) \<Rightarrow>
                      if status_Code (err_of created) = AlreadyExists then
                        (case db_GetRepository srv (Repository.Repo r') s2 of
                           (Inl getErr, s3) \<Rightarrow>
                             (Return (None, Some (StatusError Internal
                                (''unable to check existing repository details: ''
                                   @ Error getErr))), s3)
                         | (Inr existing, s3) \<Rightarrow>
                             (let existing' = existing\<lparr>ConnectionState := ConnectionState r'\<rparr>
                              in if existing' = r' then
                                   (Return (Some (Repository_of_URL (Repository.Repo existing')),
                                            None), s3)
                                 else if Upsert q then
                                   (case UpdateRepository srv claims
                                           \<lparr>RepoUpdateRequest.Repo = r'\<rparr> s3 of
                                      (res, s4) \<Rightarrow> (Return res, s4))
                                 else
                                   (Return (None, Some (StatusError InvalidArgument
                                      ''existing repository spec is different; use upsert flag to force update'')),
                                    s3)))
                      else
                        (case created of
                           Inl err \<Rightarrow> (Panic ''nil pointer dereference'', s2)
                         | Inr repo \<Rightarrow>
                             (Return (Some (Repository_of_URL (Repository.Repo repo)), None),
                              s2))))))"

subsection \<open>The credential records: create and update\<close>

definition UpdateRepositoryCredentials ::
  "'c Server \<Rightarrow> string \<Rightarrow> RepoUpdateRequest \<Rightarrow> store \<Rightarrow>
   (Repository option \<times> error option) \<times> store" where
  "UpdateRepositoryCredentials srv claims q s =
     (case enf_EnforceErr srv claims ResourceRepositories ActionUpdate
             (Repository.Repo (RepoUpdateRequest.Repo q)) of
        Some err \<Rightarrow> ((None, Some err), s)
      | None \<Rightarrow>
         (case db_UpdateRepositoryCredentials srv (RepoUpdateRequest.Repo q) s of
            (updated, s1) \<Rightarrow>
              ((Some (Repository_of_URL (Repository.Repo (RepoUpdateRequest.Repo q))),
                err_of updated), s1)))"

text \<open>
  \<open>reflect.DeepEqual(existing, r)\<close> of a \<open>nil\<close> and a record is false; \<open>differs\<close> is what
  the code does when the two are not equal.
\<close>

definition CreateRepositoryCredentials ::
  "'c Server \<Rightarrow> string \<Rightarrow> RepoCreateRequest \<Rightarrow> store \<Rightarrow>
   (Repository option \<times> error option) outcome \<times> store" where
  "CreateRepositoryCredentials srv claims q s =
     (case enf_EnforceErr srv claims ResourceRepositories ActionCreate
             (Repository.Repo (RepoCreateRequest.Repo q)) of
        Some err \<Rightarrow> (Return (None, Some err), s)
      | None \<Rightarrow>
         (let r = RepoCreateRequest.Repo q in
          case db_CreateRepositoryCredentials srv r s of
            (created, s1) \<Rightarrow>
              if status_Code (err_of created) = AlreadyExists then
                (case db_GetRepositoryCredentials srv (Repository.Repo r) s1 of
                   (Inl getErr, s2) \<Rightarrow>
                     (Return (None, Some (StatusError Internal
                        (''unable to check existing repository credentials details: ''
                           @ Error getErr))), s2)
                 | (Inr existing, s2) \<Rightarrow>
                     (let differs =
                        (if Upsert q then
                           (case UpdateRepositoryCredentials srv claims
                                   \<lparr>RepoUpdateRequest.Repo = r\<rparr> s2 of
                              (res, s3) \<Rightarrow> (Return res, s3))
                         else
                           (Return (None, Some (StatusError InvalidArgument
                              ''existing repository credentials spec is different; use upsert flag to force update'')),
                            s2))
                      in case existing of
                           None \<Rightarrow> differs
                         | Some existing \<Rightarrow>
                             if existing = r then
                               (Return (Some (Repository_of_URL (Repository.Repo existing)),
                                        None), s2)
                             else differs))
              else
                (case created of
                   Inl err \<Rightarrow> (Panic ''nil pointer dereference'', s1)
                 | Inr repo \<Rightarrow>
                     (Return (Some (Repository_of_URL (Repository.Repo repo)), None), s1))))"

subsection \<open>DeleteRepository and DeleteRepositoryCredentials\<close>

text \<open>
  \<open>DeleteRepository\<close> clears the entry of the cache before it deletes the record. What it
  does with the error of the cache is a log line.
\<close>

definition DeleteRepository ::
  "'c Server \<Rightarrow> string \<Rightarrow> RepoQuery \<Rightarrow> store \<Rightarrow> (unit option \<times> error option) \<times> store" where
  "DeleteRepository srv claims q s =
     (case enf_EnforceErr srv claims ResourceRepositories ActionDelete (RepoQuery.Repo q) of
        Some err \<Rightarrow> ((None, Some err), s)
      | None \<Rightarrow>
         (case cache_SetRepoConnectionState srv (RepoQuery.Repo q) None s of
            (cacheErr, s1) \<Rightarrow>
              (case db_DeleteRepository srv (RepoQuery.Repo q) s1 of
                 (err, s2) \<Rightarrow> ((Some (), err), s2))))"

definition DeleteRepositoryCredentials ::
  "'c Server \<Rightarrow> string \<Rightarrow> RepoQuery \<Rightarrow> store \<Rightarrow> (unit option \<times> error option) \<times> store" where
  "DeleteRepositoryCredentials srv claims q s =
     (case enf_EnforceErr srv claims ResourceRepositories ActionDelete (RepoQuery.Repo q) of
        Some err \<Rightarrow> ((None, Some err), s)
      | None \<Rightarrow>
         (case db_DeleteRepositoryCredentials srv (RepoQuery.Repo q) s of
            (err, s1) \<Rightarrow> ((Some (), err), s1)))"

subsection \<open>What the claims about the service speak of\<close>

text \<open>
  A record after the assignment \<open>r.ConnectionState = {Status: Successful}\<close> of
  \<open>CreateRepository\<close>. Two records differ beyond their connection state when they differ
  after this assignment.
\<close>

definition connected :: "Repository \<Rightarrow> Repository" where
  "connected r =
     r\<lparr>ConnectionState :=
         \<lparr>Status = ConnectionStatusSuccessful, Message = [], ModifiedAt = None\<rparr>\<rparr>"

text \<open>
  The record whose credentials \<open>CreateRepository\<close> tests the connection with: the
  matching credential record of the storage when the request carries no credentials,
  else a record of the URL with the credentials of the request.
\<close>

definition testedCredentials ::
  "'c Server \<Rightarrow> Repository \<Rightarrow> store \<Rightarrow> (error + Repository option) \<times> store" where
  "testedCredentials srv r s =
     (if \<not> Repository_HasCredentials srv r then
        db_GetRepositoryCredentials srv (Repository.Repo r) s
      else (Inr (Some (Repository_CopyCredentialsFrom srv
                         (Repository_of_URL (Repository.Repo r)) r)), s))"

text \<open>
  The outcome of the connection test that \<open>CreateRepository\<close> makes for a record: the
  error of the lookup of the credentials or of \<open>git.TestRepo\<close>, \<open>None\<close> when both pass.
\<close>

definition connectionTest :: "'c Server \<Rightarrow> Repository \<Rightarrow> store \<Rightarrow> error option" where
  "connectionTest srv r s =
     (case fst (testedCredentials srv r s) of
        Inl err \<Rightarrow> Some err
      | Inr repo \<Rightarrow>
          git_TestRepo srv (Repository.Repo r) (argo_GetRepoCreds srv repo)
            (Repository_IsInsecure srv r) (EnableLFS r))"

text \<open>The two errors of the service that the claims name.\<close>

definition permissionDenied :: error where
  "permissionDenied = StatusError PermissionDenied ''permission denied''"

definition specDiffers :: error where
  "specDiffers = StatusError InvalidArgument
     ''existing repository spec is different; use upsert flag to force update''"

text \<open>
  What \<open>CreateRepository\<close> does once the storage has answered its create with
  \<open>AlreadyExists\<close>, from the state the create has left: the branch of the function that
  reads the stored record and compares.
\<close>

definition conflict ::
  "'c Server \<Rightarrow> string \<Rightarrow> RepoCreateRequest \<Rightarrow> store \<Rightarrow>
   (Repository option \<times> error option) outcome \<times> store" where
  "conflict srv claims q s2 =
     (case db_GetRepository srv (Repository.Repo (RepoCreateRequest.Repo q)) s2 of
        (Inl getErr, s3) \<Rightarrow>
          (Return (None, Some (StatusError Internal
             (''unable to check existing repository details: '' @ Error getErr))), s3)
      | (Inr existing, s3) \<Rightarrow>
          if connected existing = connected (RepoCreateRequest.Repo q) then
            (Return (Some (Repository_of_URL (Repository.Repo (RepoCreateRequest.Repo q))), None),
             s3)
          else if Upsert q then
            (Return (fst (UpdateRepository srv claims
                        \<lparr>RepoUpdateRequest.Repo = connected (RepoCreateRequest.Repo q)\<rparr> s3)),
             snd (UpdateRepository srv claims
                    \<lparr>RepoUpdateRequest.Repo = connected (RepoCreateRequest.Repo q)\<rparr> s3))
          else (Return (None, Some specDiffers), s3))"

text \<open>
  The conditions under which \<open>CreateRepository\<close> stores a new record: the create is
  allowed, the connection test passes, the storage has no fault in the create and holds
  no record of the URL.
\<close>

definition stores_new :: "'c Server \<Rightarrow> string \<Rightarrow> RepoCreateRequest \<Rightarrow> store \<Rightarrow> bool" where
  "stores_new srv claims q s \<longleftrightarrow>
     enf_Enforce srv claims ResourceRepositories ActionCreate
       (Repository.Repo (RepoCreateRequest.Repo q)) \<and>
     connectionTest srv (RepoCreateRequest.Repo q) s = None \<and>
     db_fault srv (CreateRepositoryCall (Repository.Repo (RepoCreateRequest.Repo q))) = None \<and>
     map_of (repositories s) (Repository.Repo (RepoCreateRequest.Repo q)) = None"

text \<open>The URLs that the enforcer lets the subject get.\<close>

definition listed :: "'c Server \<Rightarrow> string \<Rightarrow> string list \<Rightarrow> string list" where
  "listed srv claims urls =
     filter (\<lambda>url. enf_Enforce srv claims ResourceRepositories ActionGet url) urls"

text \<open>
  An example: \<open>admin\<close> may do everything, \<open>reader\<close> may get one repository, nobody else may
  do anything; a record has credentials when one of its credential fields is set; the
  repository \<open>git@down/z\<close> cannot be reached; storage and cache have no faults. The storage holds the repository
  \<open>git@x/y\<close> of the spec's example with the credentials of \<open>alice\<close>.
\<close>

definition exampleServer :: "Repository option Server" where
  "exampleServer =
     \<lparr>enf_Enforce =
        (\<lambda>claims resource action object.
           resource = ''repositories'' \<and>
           (claims = ''admin'' \<or>
            (claims = ''reader'' \<and> action = ''get'' \<and> object = ''git@x/y''))),
      Repository_HasCredentials =
        (\<lambda>r. Username r \<noteq> [] \<or> Password r \<noteq> [] \<or> SSHPrivateKey r \<noteq> [] \<or>
             TLSClientCertData r \<noteq> [] \<or> TLSClientCertKey r \<noteq> []),
      Repository_CopyCredentialsFrom =
        (\<lambda>repo source.
           repo\<lparr>Username := Username source, Password := Password source,
                SSHPrivateKey := SSHPrivateKey source,
                TLSClientCertData := TLSClientCertData source,
                TLSClientCertKey := TLSClientCertKey source\<rparr>),
      Repository_IsInsecure = Insecure,
      argo_GetRepoCreds = (\<lambda>repo. repo),
      git_TestRepo =
        (\<lambda>url creds insecure lfs.
           if url = ''git@down/z'' then Some (PlainError ''connection refused'') else None),
      db_fault = (\<lambda>c. None),
      cache_GetRepoConnectionState_fault = (\<lambda>url. None),
      cache_SetRepoConnectionState_fault = (\<lambda>url. None),
      metav1_Now = 1000\<rparr>"

definition emptyStore :: store where
  "emptyStore =
     \<lparr>repositories = [], repositoryCredentials = [], connectionStates = Map.empty,
      db_calls = []\<rparr>"

definition aliceRepo :: Repository where
  "aliceRepo = (Repository_of_URL ''git@x/y'')\<lparr>Username := ''alice'', Password := ''s3cret''\<rparr>"

definition bobRepo :: Repository where
  "bobRepo = (Repository_of_URL ''git@x/y'')\<lparr>Username := ''bob'', Password := ''hunter2''\<rparr>"

definition aliceStore :: store where
  "aliceStore =
     emptyStore\<lparr>repositories :=
       [(''git@x/y'', connected aliceRepo), (''git@down/z'', Repository_of_URL ''git@down/z'')]\<rparr>"

section \<open>Properties of util/db/gpgkeys.go\<close>

subsection \<open>Loading the configured keys\<close>

lemma validatePGPKey_Inr_iff:
  "validatePGPKey env p = Inr i \<longleftrightarrow>
     ioutil_TempFile_fault env p = None \<and> ioutil_WriteFile_fault env p = None \<and>
     gpg_ValidatePGPKeys env p = Inr [i]"
  by (auto simp: validatePGPKey_def length_Suc_conv split: option.splits sum.splits)

lemma entry_rejected_iff:
  "entry_rejected env k p \<longleftrightarrow>
     gpg_KeyID env k = [] \<or> validatePGPKey env p \<noteq> Inr (gpg_KeyID env k)"
  by (auto simp: entry_rejected_def validatePGPKey_def length_Suc_conv split: option.splits sum.splits)

lemma configuredLoop_Inl_iff:
  "(\<exists>e. configuredLoop env data result = Inl e) \<longleftrightarrow>
   (\<exists>(k, p) \<in> set data. entry_rejected env k p)"
proof (induction data arbitrary: result)
  case Nil
  show ?case by simp
next
  case (Cons kp data)
  obtain k p where kp: "kp = (k, p)" by (cases kp)
  show ?case
  proof (cases "entry_rejected env k p")
    case True
    then have "\<exists>e. configuredLoop env ((k, p) # data) result = Inl e"
      by (auto simp: entry_rejected_iff split: sum.splits)
    with True kp show ?thesis by auto
  next
    case False
    then have "configuredLoop env ((k, p) # data) result =
        configuredLoop env data (AList.update (gpg_KeyID env k) p result)"
      by (auto simp: entry_rejected_iff split: sum.splits)
    with False kp Cons.IH show ?thesis by auto
  qed
qed

lemma configuredLoop_Inr_map_of:
  "configuredLoop env data result = Inr r \<Longrightarrow>
   map_of r = map_of result ++ map_of (rev (declared env data)) \<and>
   (distinct (map fst result) \<longrightarrow> distinct (map fst r))"
proof (induction data arbitrary: result)
  case Nil
  then show ?case by (simp add: declared_def)
next
  case (Cons kp data)
  obtain k p where kp: "kp = (k, p)" by (cases kp)
  from Cons.prems kp have
    step: "configuredLoop env data (AList.update (gpg_KeyID env k) p result) = Inr r"
    by (auto split: if_splits sum.splits)
  from Cons.IH[OF step] have
    m: "map_of r = (map_of result)(gpg_KeyID env k \<mapsto> p) ++ map_of (rev (declared env data))"
    and d: "distinct (map fst result) \<longrightarrow> distinct (map fst r)"
    using distinct_update[of result "gpg_KeyID env k" p]
    unfolding update_conv' by blast+
  have "map_of r x = (map_of result ++ map_of (rev (declared env (kp # data)))) x" for x
    unfolding m by (simp add: kp declared_def map_add_def split: option.splits)
  then have "map_of r = map_of result ++ map_of (rev (declared env (kp # data)))"
    by (rule ext)
  with d show ?case by simp
qed


lemma map_of_rev_distinct:
  assumes "distinct (map fst xs)" and "(k, v) \<in> set xs"
  shows "map_of (rev xs) k = Some v"
proof -
  have "distinct (map fst (rev xs))"
    using assms(1) unfolding rev_map[symmetric] distinct_rev .
  moreover have "(k, v) \<in> set (rev xs)" using assms(2) by simp
  ultimately show ?thesis by (rule map_of_is_SomeI)
qed

lemma declared_distinct:
  assumes "inj_on (gpg_KeyID env) (fst ` set data)" and "distinct (map fst data)"
  shows "distinct (map fst (declared env data))"
proof -
  have "distinct (map (gpg_KeyID env) (map fst data))"
    using assms by (subst distinct_map) simp
  then show ?thesis by (simp add: declared_def comp_def)
qed

text \<open>
  Claim C8. Given the data of the ConfigMap, \<open>ListConfiguredGPGPublicKeys\<close> returns an
  error, and so no map at all, exactly when some entry is rejected: it is no key ID, it
  fails validation, it holds another number of keys than one, or its key has another ID
  than declared. When it returns a map, no entry is rejected, the keys of the map are
  the declared key IDs, every value is the data of an entry declaring that ID, and, when
  no two entries declare the same ID, every entry's ID is mapped to that entry's data.
\<close>

theorem ListConfiguredGPGPublicKeys_all_or_nothing:
  assumes "settingsMgr_GetConfigMapByName env = Inr data"
  shows "((\<exists>e. ListConfiguredGPGPublicKeys env = Inl e) \<longleftrightarrow>
            (\<exists>(k, p) \<in> set data. entry_rejected env k p)) \<and>
         (\<forall>r. ListConfiguredGPGPublicKeys env = Inr r \<longrightarrow>
            (\<forall>(k, p) \<in> set data. \<not> entry_rejected env k p) \<and>
            fst ` set r = gpg_KeyID env ` fst ` set data \<and>
            (\<forall>i p. map_of r i = Some p \<longrightarrow> (\<exists>k. (k, p) \<in> set data \<and> gpg_KeyID env k = i)) \<and>
            (inj_on (gpg_KeyID env) (fst ` set data) \<and> distinct (map fst data) \<longrightarrow>
               (\<forall>(k, p) \<in> set data. map_of r (gpg_KeyID env k) = Some p)))"
proof (intro conjI allI impI)
  have L: "ListConfiguredGPGPublicKeys env = configuredLoop env data []"
    using assms by (simp add: ListConfiguredGPGPublicKeys_def)
  show iff: "(\<exists>e. ListConfiguredGPGPublicKeys env = Inl e) \<longleftrightarrow>
      (\<exists>(k, p) \<in> set data. entry_rejected env k p)"
    unfolding L by (rule configuredLoop_Inl_iff)
  fix r assume r: "ListConfiguredGPGPublicKeys env = Inr r"
  then show "\<forall>(k, p) \<in> set data. \<not> entry_rejected env k p"
    using iff by auto
  from r L have m: "map_of r = map_of (rev (declared env data))"
    using configuredLoop_Inr_map_of[of env data "[]" r] by simp
  have "fst ` set r = dom (map_of r)" by (simp add: dom_map_of_conv_image_fst)
  also have "\<dots> = fst ` set (rev (declared env data))"
    unfolding m by (simp only: dom_map_of_conv_image_fst)
  also have "\<dots> = gpg_KeyID env ` fst ` set data"
    by (force simp: declared_def)
  finally show "fst ` set r = gpg_KeyID env ` fst ` set data" .
  show "\<exists>k. (k, p) \<in> set data \<and> gpg_KeyID env k = i" if "map_of r i = Some p" for i p
  proof -
    from that have "(i, p) \<in> set (rev (declared env data))"
      unfolding m by (rule map_of_SomeD)
    then show ?thesis by (auto simp: declared_def)
  qed
  show "\<forall>(k, p) \<in> set data. map_of r (gpg_KeyID env k) = Some p"
    if "inj_on (gpg_KeyID env) (fst ` set data) \<and> distinct (map fst data)"
  proof -
    from that have d: "distinct (map fst (declared env data))"
      by (simp add: declared_distinct)
    have "map_of r (gpg_KeyID env k) = Some p" if "(k, p) \<in> set data" for k p
    proof -
      from that have "(gpg_KeyID env k, p) \<in> set (declared env data)"
        by (force simp: declared_def)
      with d show ?thesis unfolding m by (rule map_of_rev_distinct)
    qed
    then show ?thesis by auto
  qed
qed

lemma exampleGnuPG_configured:
  "ListConfiguredGPGPublicKeys exampleGnuPG = Inr [(''A'', ''key A''), (''B'', ''key B'')]"
  by (simp add: ListConfiguredGPGPublicKeys_def exampleGnuPG_def validatePGPKey_def)

theorem ListConfiguredGPGPublicKeys_all_or_nothing_witness:
  "settingsMgr_GetConfigMapByName exampleGnuPG = Inr [(''A'', ''key A''), (''B'', ''key B'')] \<and>
   ListConfiguredGPGPublicKeys exampleGnuPG = Inr [(''A'', ''key A''), (''B'', ''key B'')] \<and>
   inj_on (gpg_KeyID exampleGnuPG) (fst ` set [(''A'', ''key A''), (''B'', ''key B'')]) \<and>
   distinct (map fst [(''A'', ''key A''), (''B'', ''key B'')]) \<and>
   \<not> entry_rejected exampleGnuPG ''A'' ''key A'' \<and>
   \<not> entry_rejected exampleGnuPG ''B'' ''key B'' \<and>
   map_of [(''A'', ''key A''), (''B'', ''key B'')] (gpg_KeyID exampleGnuPG ''A'') = Some ''key A'' \<and>
   map_of [(''A'', ''key A''), (''B'', ''key B'')] (gpg_KeyID exampleGnuPG ''B'') = Some ''key B''"
proof -
  have cm: "settingsMgr_GetConfigMapByName exampleGnuPG = Inr [(''A'', ''key A''), (''B'', ''key B'')]"
    by (simp add: exampleGnuPG_def)
  have ids: "gpg_KeyID exampleGnuPG ''A'' = ''A''" "gpg_KeyID exampleGnuPG ''B'' = ''B''"
    by (simp_all add: exampleGnuPG_def)
  have inj: "inj_on (gpg_KeyID exampleGnuPG) (fst ` set [(''A'', ''key A''), (''B'', ''key B'')])"
    by (simp add: ids)
  from ListConfiguredGPGPublicKeys_all_or_nothing[OF cm] exampleGnuPG_configured inj
  have "(\<forall>(k, p) \<in> set [(''A'', ''key A''), (''B'', ''key B'')]. \<not> entry_rejected exampleGnuPG k p) \<and>
     (\<forall>(k, p) \<in> set [(''A'', ''key A''), (''B'', ''key B'')].
        map_of [(''A'', ''key A''), (''B'', ''key B'')] (gpg_KeyID exampleGnuPG k) = Some p)"
    by (simp add: ids)
  then show ?thesis using cm inj exampleGnuPG_configured by (simp add: ids)
qed

subsection \<open>Reconciling the keyring\<close>

lemma set_nonSecretKeys: "set (nonSecretKeys kr) = {k. map_of kr k = Some False}"
  by (auto simp: nonSecretKeys_def dest: map_of_SomeD intro: rev_image_eqI)

lemma map_of_install:
  "map_of (install kr k) = (if map_of kr k = None then (map_of kr)(k \<mapsto> False) else map_of kr)"
  by (rule ext) (simp add: install_def map_add_def split: option.splits)

lemma map_of_foldl_install_secret:
  "map_of (foldl install kr ks) i = Some True \<longleftrightarrow> map_of kr i = Some True"
  by (induction ks arbitrary: kr) (auto simp: map_of_install split: if_splits)

text \<open>One check for a secret key: it is recorded, and nothing else changes.\<close>

lemma IsSecretKey_state:
  "snd (IsSecretKey env k s) = s\<lparr>secretChecks := secretChecks s @ [k]\<rparr>"
  by (simp add: IsSecretKey_def split: option.splits)

lemma IsSecretKey_result:
  "fst (IsSecretKey env k s) =
     (case gpg_IsSecretKey_fault env (length (secretChecks s)) k of
        Some err \<Rightarrow> Inl err
      | None \<Rightarrow> Inr (map_of (keyring s) k = Some True))"
  by (simp add: IsSecretKey_def split: option.splits)

lemma IsSecretKey_eq:
  "IsSecretKey env k s = (r, s1) \<longleftrightarrow>
     r = fst (IsSecretKey env k s) \<and> s1 = s\<lparr>secretChecks := secretChecks s @ [k]\<rparr>"
  using IsSecretKey_state[of env k s] by (cases "IsSecretKey env k s") auto

text \<open>One import.\<close>

lemma Import_calls:
  "gpg_calls (snd (ImportPGPKeysFromString env p s)) = gpg_calls s @ [ImportCall p]"
  by (simp add: ImportPGPKeysFromString_def split: sum.splits)

lemma Import_semaphore:
  "syncSemaphore (snd (ImportPGPKeysFromString env p s)) = syncSemaphore s"
  by (simp add: ImportPGPKeysFromString_def split: sum.splits)

lemma Import_checks:
  "secretChecks (snd (ImportPGPKeysFromString env p s)) = secretChecks s"
  by (simp add: ImportPGPKeysFromString_def split: sum.splits)

lemma Import_secret:
  "map_of (keyring (snd (ImportPGPKeysFromString env p s))) i = Some True \<longleftrightarrow>
   map_of (keyring s) i = Some True"
  by (simp add: ImportPGPKeysFromString_def map_of_foldl_install_secret split: sum.splits)

text \<open>One delete.\<close>

lemma Delete_calls:
  "gpg_calls (snd (DeletePGPKey env k s)) = gpg_calls s @ [DeleteCall k]"
  by (simp add: DeletePGPKey_def split: option.splits)

lemma Delete_semaphore:
  "syncSemaphore (snd (DeletePGPKey env k s)) = syncSemaphore s"
  by (simp add: DeletePGPKey_def split: option.splits)

lemma Delete_checks:
  "secretChecks (snd (DeletePGPKey env k s)) = secretChecks s"
  by (simp add: DeletePGPKey_def split: option.splits)

lemma Delete_other:
  "i \<noteq> k \<Longrightarrow> map_of (keyring (snd (DeletePGPKey env k s))) i = map_of (keyring s) i"
  by (simp add: DeletePGPKey_def delete_conv' split: option.splits)

lemma Delete_secret:
  "map_of (keyring (snd (DeletePGPKey env k s))) i = Some True \<Longrightarrow>
   map_of (keyring s) i = Some True"
  by (cases "i = k") (simp_all add: DeletePGPKey_def delete_conv' split: option.splits)

text \<open>What a secret key sees of a run: it stays, and no delete names it.\<close>

lemma untouched_refl: "map_of (keyring s) i = Some True \<Longrightarrow> untouched i s s"
  by (simp add: untouched_def)

lemma untouched_trans: "untouched i s t \<Longrightarrow> untouched i t u \<Longrightarrow> untouched i s u"
  by (auto simp: untouched_def)

lemma untouched_check:
  "map_of (keyring s) i = Some True \<Longrightarrow> untouched i s (snd (IsSecretKey env k s))"
  by (simp add: untouched_def IsSecretKey_state)

lemma untouched_Import:
  "map_of (keyring s) i = Some True \<Longrightarrow> untouched i s (snd (ImportPGPKeysFromString env p s))"
  by (simp add: untouched_def Import_calls Import_secret Import_semaphore)

lemma untouched_Delete:
  "map_of (keyring s) i = Some True \<Longrightarrow> k \<noteq> i \<Longrightarrow>
   untouched i s (snd (DeletePGPKey env k s))"
  by (simp add: untouched_def Delete_calls Delete_other Delete_semaphore)

lemma untouched_importLoop:
  "map_of (keyring s) i = Some True \<Longrightarrow> untouched i s (snd (importLoop env inst cfg s))"
proof (induction cfg arbitrary: s)
  case Nil
  then show ?case by (simp add: untouched_refl)
next
  case (Cons kp cfg)
  obtain k p where kp: "kp = (k, p)" by (cases kp)
  let ?s' = "snd (ImportPGPKeysFromString env p s)"
  have u: "untouched i s ?s'" using Cons.prems by (rule untouched_Import)
  then have sec: "map_of (keyring ?s') i = Some True" by (simp add: untouched_def)
  have rest: "untouched i s (snd (importLoop env inst cfg ?s'))"
    using u Cons.IH[OF sec] by (rule untouched_trans)
  show ?case
    using Cons.IH[OF Cons.prems] rest u
    by (auto simp: kp split: prod.splits sum.splits list.splits)
qed

text \<open>
  The delete loop after its check of the first key: the key is deleted when the check
  has not failed and has answered that the key is not a secret one.
\<close>

lemma deleteLoop_step:
  "deleteLoop env cfg ((k, v) # inst) s =
     (if map_of cfg k = None then
        (if fst (IsSecretKey env k s) = Inr False then
           deleteLoop env cfg inst
             (snd (DeletePGPKey env k (s\<lparr>secretChecks := secretChecks s @ [k]\<rparr>)))
         else deleteLoop env cfg inst (s\<lparr>secretChecks := secretChecks s @ [k]\<rparr>))
      else deleteLoop env cfg inst s)"
proof -
  obtain r s1 where c: "IsSecretKey env k s = (r, s1)" by (cases "IsSecretKey env k s")
  then have "s1 = s\<lparr>secretChecks := secretChecks s @ [k]\<rparr>" and "fst (IsSecretKey env k s) = r"
    by (simp_all add: IsSecretKey_eq)
  with c show ?thesis by (cases r) auto
qed

lemma untouched_deleteLoop:
  "map_of (keyring s) i = Some True \<Longrightarrow> untouched i s (deleteLoop env cfg inst s)"
proof (induction inst arbitrary: s)
  case Nil
  then show ?case by (simp add: untouched_refl)
next
  case (Cons kv inst)
  obtain k v where kv: "kv = (k, v)" by (cases kv)
  let ?s1 = "s\<lparr>secretChecks := secretChecks s @ [k]\<rparr>"
  have u1: "untouched i s ?s1"
    using untouched_check[OF Cons.prems, of env k] by (simp add: IsSecretKey_state)
  then have sec1: "map_of (keyring ?s1) i = Some True" by (simp add: untouched_def)
  show ?case
  proof (cases "map_of cfg k = None")
    case False
    then have "deleteLoop env cfg (kv # inst) s = deleteLoop env cfg inst s"
      by (auto simp: kv)
    with Cons.IH[OF Cons.prems] show ?thesis by simp
  next
    case absent: True
    show ?thesis
    proof (cases "fst (IsSecretKey env k s) = Inr False")
      case True
      then have "k \<noteq> i" using Cons.prems
        by (auto simp: IsSecretKey_result split: option.splits)
      with sec1 have u: "untouched i ?s1 (snd (DeletePGPKey env k ?s1))"
        by (rule untouched_Delete)
      then have "map_of (keyring (snd (DeletePGPKey env k ?s1))) i = Some True"
        by (simp add: untouched_def)
      from untouched_trans[OF u Cons.IH[OF this]]
      have "untouched i ?s1 (deleteLoop env cfg inst (snd (DeletePGPKey env k ?s1)))" .
      with u1 have "untouched i s (deleteLoop env cfg inst (snd (DeletePGPKey env k ?s1)))"
        by (rule untouched_trans)
      with absent True show ?thesis
        unfolding kv deleteLoop_step by simp
    next
      case False
      from untouched_trans[OF u1 Cons.IH[OF sec1]] absent False show ?thesis
        unfolding kv deleteLoop_step by simp
    qed
  qed
qed

text \<open>The listing of the installed keys changes the record of the checks and nothing else.\<close>

lemma installedLoop_other:
  "keyring (snd (installedLoop env keys result s)) = keyring s \<and>
   gpg_calls (snd (installedLoop env keys result s)) = gpg_calls s \<and>
   syncSemaphore (snd (installedLoop env keys result s)) = syncSemaphore s \<and>
   (\<exists>new. secretChecks (snd (installedLoop env keys result s)) = secretChecks s @ new)"
proof (induction keys arbitrary: result s)
  case Nil
  show ?case by simp
next
  case (Cons v keys)
  let ?s1 = "s\<lparr>secretChecks := secretChecks s @ [KeyID v]\<rparr>"
  obtain r where c: "IsSecretKey env (KeyID v) s = (r, ?s1)"
    by (simp add: IsSecretKey_eq)
  show ?case
  proof (cases r)
    case (Inl err)
    with c show ?thesis by simp
  next
    case (Inr isSecret)
    have "snd (installedLoop env (v # keys) result s) =
        snd (installedLoop env keys
               (if \<not> isSecret then AList.update (KeyID v) v result else result) ?s1)"
      using c Inr by simp
    with Cons.IH[of "if \<not> isSecret then AList.update (KeyID v) v result else result" ?s1]
    show ?thesis by auto
  qed
qed

lemma ListInstalled_other:
  "keyring (snd (ListInstalledGPGPublicKeys env s)) = keyring s \<and>
   gpg_calls (snd (ListInstalledGPGPublicKeys env s)) = gpg_calls s \<and>
   syncSemaphore (snd (ListInstalledGPGPublicKeys env s)) = syncSemaphore s \<and>
   (\<exists>new. secretChecks (snd (ListInstalledGPGPublicKeys env s)) = secretChecks s @ new)"
  using installedLoop_other[of env _ "[]" s]
  by (simp add: ListInstalledGPGPublicKeys_def split: sum.splits)

lemma untouched_ListInstalled:
  "map_of (keyring s) i = Some True \<Longrightarrow>
   untouched i s (snd (ListInstalledGPGPublicKeys env s))"
  using ListInstalled_other[of env s] by (simp add: untouched_def)

text \<open>The ways through \<open>SynchronizeGPGPublicKeys\<close>.\<close>

lemma Sync_locked:
  "syncSemaphore s \<Longrightarrow>
   SynchronizeGPGPublicKeys env s =
     (Return (Some (PlainError ''GnuPG database is locked, try again.'')), s)"
  by (simp add: SynchronizeGPGPublicKeys_def)

lemma Sync_configured_error:
  "\<not> syncSemaphore s \<Longrightarrow> ListConfiguredGPGPublicKeys env = Inl err \<Longrightarrow>
   SynchronizeGPGPublicKeys env s = (Return (Some err), s)"
  by (simp add: SynchronizeGPGPublicKeys_def)

lemma Sync_installed_error:
  "\<not> syncSemaphore s \<Longrightarrow> ListConfiguredGPGPublicKeys env = Inr cfg \<Longrightarrow>
   ListInstalledGPGPublicKeys env (s\<lparr>syncSemaphore := True\<rparr>) = (Inl err, s1) \<Longrightarrow>
   SynchronizeGPGPublicKeys env s = (Return (Some err), s1\<lparr>syncSemaphore := False\<rparr>)"
  by (simp add: SynchronizeGPGPublicKeys_def)

lemma Sync_panic:
  "\<not> syncSemaphore s \<Longrightarrow> ListConfiguredGPGPublicKeys env = Inr cfg \<Longrightarrow>
   ListInstalledGPGPublicKeys env (s\<lparr>syncSemaphore := True\<rparr>) = (Inr inst, s1) \<Longrightarrow>
   importLoop env inst (range_configuredKeys env cfg) s1 = (Panic msg, s2) \<Longrightarrow>
   SynchronizeGPGPublicKeys env s = (Panic msg, s2\<lparr>syncSemaphore := False\<rparr>)"
  by (simp add: SynchronizeGPGPublicKeys_def)

lemma Sync_reconciled:
  "\<not> syncSemaphore s \<Longrightarrow> ListConfiguredGPGPublicKeys env = Inr cfg \<Longrightarrow>
   ListInstalledGPGPublicKeys env (s\<lparr>syncSemaphore := True\<rparr>) = (Inr inst, s1) \<Longrightarrow>
   importLoop env inst (range_configuredKeys env cfg) s1 = (Return u, s2) \<Longrightarrow>
   SynchronizeGPGPublicKeys env s =
     (Return None,
      (deleteLoop env cfg (range_installedKeys env inst) s2)\<lparr>syncSemaphore := False\<rparr>)"
  by (simp add: SynchronizeGPGPublicKeys_def)

text \<open>
  The semaphore in a run on its own: a call that finds the slot taken returns the error
  of a locked database and changes nothing; a call that finds it free leaves it free,
  whichever way the call ends.
\<close>

lemma SynchronizeGPGPublicKeys_locked:
  "syncSemaphore s \<Longrightarrow>
   SynchronizeGPGPublicKeys env s =
     (Return (Some (PlainError ''GnuPG database is locked, try again.'')), s)"
  by (rule Sync_locked)

lemma SynchronizeGPGPublicKeys_releases:
  "\<not> syncSemaphore s \<Longrightarrow> \<not> syncSemaphore (snd (SynchronizeGPGPublicKeys env s))"
  by (simp add: SynchronizeGPGPublicKeys_def Let_def split: sum.splits prod.splits outcome.splits)

lemma untouched_release:
  "untouched i (s\<lparr>syncSemaphore := True\<rparr>) t \<Longrightarrow>
   map_of (keyring (t\<lparr>syncSemaphore := False\<rparr>)) i = Some True \<and>
   (\<exists>new. gpg_calls (t\<lparr>syncSemaphore := False\<rparr>) = gpg_calls s @ new \<and> DeleteCall i \<notin> set new)"
  by (simp add: untouched_def)

text \<open>
  Claim C2. Whatever the ConfigMap declares and whatever the gpg calls answer, a key that
  is marked secret in the keyring when \<open>SynchronizeGPGPublicKeys\<close> is called is still in
  the keyring, and secret, when the call is over, and none of the calls the run has added
  to the record is a delete of that key.
\<close>

theorem SynchronizeGPGPublicKeys_never_deletes_secret:
  assumes "map_of (keyring s) keyID = Some True"
  shows "map_of (keyring (snd (SynchronizeGPGPublicKeys env s))) keyID = Some True \<and>
         (\<exists>new. gpg_calls (snd (SynchronizeGPGPublicKeys env s)) = gpg_calls s @ new \<and>
                DeleteCall keyID \<notin> set new)"
proof (cases "syncSemaphore s")
  case True
  with assms show ?thesis by (simp add: Sync_locked)
next
  case free: False
  let ?s0 = "s\<lparr>syncSemaphore := True\<rparr>"
  have s0: "map_of (keyring ?s0) keyID = Some True" using assms by simp
  show ?thesis
  proof (cases "ListConfiguredGPGPublicKeys env")
    case (Inl err)
    with free assms show ?thesis by (simp add: Sync_configured_error)
  next
    case cfg: (Inr cfg)
    obtain listed s1 where li: "ListInstalledGPGPublicKeys env ?s0 = (listed, s1)"
      by (cases "ListInstalledGPGPublicKeys env ?s0")
    have u0: "untouched keyID ?s0 s1"
      using untouched_ListInstalled[OF s0, of env] li by simp
    then have s1: "map_of (keyring s1) keyID = Some True" by (simp add: untouched_def)
    show ?thesis
    proof (cases listed)
      case (Inl err)
      with li have "SynchronizeGPGPublicKeys env s =
          (Return (Some err), s1\<lparr>syncSemaphore := False\<rparr>)"
        using free cfg by (simp add: Sync_installed_error)
      with untouched_release[OF u0] show ?thesis by simp
    next
      case inst: (Inr inst)
      obtain r s2 where
        il: "importLoop env inst (range_configuredKeys env cfg) s1 = (r, s2)"
        by (cases "importLoop env inst (range_configuredKeys env cfg) s1")
      have "untouched keyID s1 s2"
        using untouched_importLoop[OF s1, of env inst "range_configuredKeys env cfg"] il
        by simp
      with u0 have u1: "untouched keyID ?s0 s2" by (rule untouched_trans)
      show ?thesis
      proof (cases r)
        case (Panic msg)
        with il have "SynchronizeGPGPublicKeys env s = (Panic msg, s2\<lparr>syncSemaphore := False\<rparr>)"
          using free cfg li inst by (simp add: Sync_panic)
        with untouched_release[OF u1] show ?thesis by simp
      next
        case (Return u)
        let ?s3 = "deleteLoop env cfg (range_installedKeys env inst) s2"
        from u1 have "map_of (keyring s2) keyID = Some True" by (simp add: untouched_def)
        then have "untouched keyID s2 ?s3" by (rule untouched_deleteLoop)
        with u1 have u2: "untouched keyID ?s0 ?s3" by (rule untouched_trans)
        from Return il have
          "SynchronizeGPGPublicKeys env s = (Return None, ?s3\<lparr>syncSemaphore := False\<rparr>)"
          using free cfg li inst by (simp add: Sync_reconciled)
        with untouched_release[OF u2] show ?thesis by simp
      qed
    qed
  qed
qed

subsection \<open>The installed keys\<close>

lemma keys_update: "fst ` set (AList.update k v al) = insert k (fst ` set al)"
proof -
  have "fst ` set (AList.update k v al) = dom (map_of (AList.update k v al))"
    by (simp only: dom_map_of_conv_image_fst)
  also have "\<dots> = insert k (dom (map_of al))" by (simp add: update_conv')
  finally show ?thesis by (simp only: dom_map_of_conv_image_fst)
qed

lemma installedLoop_keys:
  "installedLoop env keys result s = (Inr r, s1) \<Longrightarrow>
   fst ` set r = fst ` set result \<union>
     {KeyID v |v. v \<in> set keys \<and> map_of (keyring s) (KeyID v) \<noteq> Some True}"
proof (induction keys arbitrary: result s)
  case Nil
  then show ?case by simp
next
  case (Cons v keys)
  let ?s1 = "s\<lparr>secretChecks := secretChecks s @ [KeyID v]\<rparr>"
  obtain c where c: "IsSecretKey env (KeyID v) s = (c, ?s1)"
    by (simp add: IsSecretKey_eq)
  with Cons.prems obtain isSecret where ok: "c = Inr isSecret"
    by (cases c) auto
  with c have ans: "isSecret = (map_of (keyring s) (KeyID v) = Some True)"
    using IsSecretKey_result[of env "KeyID v" s] by (auto split: option.splits)
  show ?case
  proof (cases isSecret)
    case True
    with Cons.prems c ok have "installedLoop env keys result ?s1 = (Inr r, s1)" by simp
    from Cons.IH[OF this] True ans show ?thesis by auto
  next
    case False
    with Cons.prems c ok have
      "installedLoop env keys (AList.update (KeyID v) v result) ?s1 = (Inr r, s1)"
      by simp
    from Cons.IH[OF this] have
      "fst ` set r = insert (KeyID v) (fst ` set result) \<union>
         {KeyID v |v. v \<in> set keys \<and> map_of (keyring s) (KeyID v) \<noteq> Some True}"
      unfolding keys_update by simp
    with False ans show ?thesis by auto
  qed
qed

lemma ListInstalled_keys:
  assumes "ListInstalledGPGPublicKeys env s = (Inr inst, s1)"
  shows "fst ` set inst = {k. map_of (keyring s) k = Some False}"
proof -
  let ?keys = "map (\<lambda>kv. \<lparr>KeyID = fst kv\<rparr>) (keyring s)"
  from assms have loop: "installedLoop env ?keys [] s = (Inr inst, s1)"
    by (simp add: ListInstalledGPGPublicKeys_def GetInstalledPGPKeys_def split: option.splits)
  note facts = installedLoop_keys[OF loop]
  have "{KeyID v |v. v \<in> set ?keys \<and> map_of (keyring s) (KeyID v) \<noteq> Some True}
      = {k. map_of (keyring s) k = Some False}" (is "?L = ?R")
  proof (intro set_eqI iffI)
    fix k assume "k \<in> ?L"
    then have k: "k \<in> fst ` set (keyring s)" and ns: "map_of (keyring s) k \<noteq> Some True"
      by force+
    from k obtain b where "map_of (keyring s) k = Some b"
      by (cases "map_of (keyring s) k") (auto simp: map_of_eq_None_iff)
    with ns show "k \<in> ?R" by (cases b) auto
  next
    fix k assume "k \<in> ?R"
    then have m: "map_of (keyring s) k = Some False" by simp
    then have "(k, False) \<in> set (keyring s)" by (rule map_of_SomeD)
    then have "\<lparr>KeyID = k\<rparr> \<in> set ?keys" by force
    with m show "k \<in> ?L" by force
  qed
  with facts show "fst ` set inst = {k. map_of (keyring s) k = Some False}"
    by simp
qed

lemma map_of_None_iff_installed:
  assumes "ListInstalledGPGPublicKeys env s = (Inr inst, s1)"
  shows "map_of inst k = None \<longleftrightarrow> map_of (keyring s) k \<noteq> Some False"
  using ListInstalled_keys[OF assms] by (auto simp: map_of_eq_None_iff)

subsection \<open>The import loop\<close>

lemma importLoop_skips:
  "\<forall>(k, p) \<in> set cfg. map_of inst k \<noteq> None \<Longrightarrow> importLoop env inst cfg s = (Return (), s)"
  by (induction cfg arbitrary: s) auto

lemma importLoop_checks:
  "secretChecks (snd (importLoop env inst cfg s)) = secretChecks s"
proof (induction cfg arbitrary: s)
  case Nil
  show ?case by simp
next
  case (Cons kp cfg)
  obtain k p where kp: "kp = (k, p)" by (cases kp)
  let ?s' = "snd (ImportPGPKeysFromString env p s)"
  have a: "secretChecks (snd (importLoop env inst cfg ?s')) = secretChecks s"
    by (simp add: Cons.IH Import_checks)
  have b: "secretChecks ?s' = secretChecks s" by (rule Import_checks)
  have "snd (importLoop env inst (kp # cfg) s) = snd (importLoop env inst cfg s) \<or>
      snd (importLoop env inst (kp # cfg) s) = snd (importLoop env inst cfg ?s') \<or>
      snd (importLoop env inst (kp # cfg) s) = ?s'"
    by (simp add: kp split: prod.splits sum.splits list.splits)
  with a b Cons.IH[of s] show ?case by metis
qed

lemma importLoop_calls:
  "importLoop env inst cfg s = (r, s1) \<Longrightarrow>
   \<exists>new. gpg_calls s1 = gpg_calls s @ new \<and>
     (\<forall>c \<in> set new. \<exists>p. c = ImportCall p) \<and>
     (r = Return () \<longrightarrow> (\<forall>(k, p) \<in> set cfg. map_of inst k = None \<longrightarrow> ImportCall p \<in> set new))"
proof (induction cfg arbitrary: s)
  case Nil
  then show ?case by simp
next
  case (Cons kp cfg)
  obtain k p where kp: "kp = (k, p)" by (cases kp)
  show ?case
  proof (cases "map_of inst k = None")
    case False
    with Cons.prems kp have "importLoop env inst cfg s = (r, s1)" by simp
    from Cons.IH[OF this] False kp show ?thesis by auto
  next
    case True
    let ?s' = "snd (ImportPGPKeysFromString env p s)"
    have c: "gpg_calls ?s' = gpg_calls s @ [ImportCall p]" by (rule Import_calls)
    show ?thesis
    proof (cases "fst (ImportPGPKeysFromString env p s) = Inr []")
      case empty: True
      with Cons.prems kp True have "r = Panic ''index out of range''" and "s1 = ?s'"
        by (auto split: prod.splits)
      with c show ?thesis by auto
    next
      case False
      with Cons.prems kp True have "importLoop env inst cfg ?s' = (r, s1)"
        by (auto split: prod.splits sum.splits list.splits)
      from Cons.IH[OF this] obtain new where
        n: "gpg_calls s1 = gpg_calls ?s' @ new" "\<forall>c \<in> set new. \<exists>p. c = ImportCall p"
           "r = Return () \<longrightarrow>
              (\<forall>(k, p) \<in> set cfg. map_of inst k = None \<longrightarrow> ImportCall p \<in> set new)"
        by blast
      have "gpg_calls s1 = gpg_calls s @ (ImportCall p # new)" using n(1) c by simp
      moreover have "\<forall>c \<in> set (ImportCall p # new). \<exists>p. c = ImportCall p"
        using n(2) by simp
      moreover have "r = Return () \<longrightarrow>
          (\<forall>(k, p') \<in> set (kp # cfg). map_of inst k = None \<longrightarrow> ImportCall p' \<in> set (ImportCall p # new))"
        using n(3) kp by auto
      ultimately show ?thesis by blast
    qed
  qed
qed

lemma importLoop_installs:
  assumes "\<forall>(k, p) \<in> set cfg. map_of inst k = None \<longrightarrow>
             gpg_ImportPGPKeysFromString_result env p = Inr [\<lparr>KeyID = k\<rparr>]"
  shows "\<exists>s1. importLoop env inst cfg s = (Return (), s1) \<and>
           syncSemaphore s1 = syncSemaphore s \<and>
           (\<forall>i. map_of (keyring s1) i =
                 (if i \<in> fst ` set cfg \<and> map_of inst i = None \<and> map_of (keyring s) i = None
                  then Some False else map_of (keyring s) i))"
  using assms
proof (induction cfg arbitrary: s)
  case Nil
  then show ?case by simp
next
  case (Cons kp cfg)
  obtain k p where kp: "kp = (k, p)" by (cases kp)
  from Cons.prems have rest: "\<forall>(k, p) \<in> set cfg. map_of inst k = None \<longrightarrow>
      gpg_ImportPGPKeysFromString_result env p = Inr [\<lparr>KeyID = k\<rparr>]"
    by simp
  show ?case
  proof (cases "map_of inst k = None")
    case False
    then have "importLoop env inst (kp # cfg) s = importLoop env inst cfg s"
      by (auto simp: kp)
    with Cons.IH[OF rest, of s] False kp show ?thesis by auto
  next
    case True
    with Cons.prems kp have
      imp: "gpg_ImportPGPKeysFromString_result env p = Inr [\<lparr>KeyID = k\<rparr>]"
      by simp
    let ?s' = "s\<lparr>keyring := install (keyring s) k,
                 gpg_calls := gpg_calls s @ [ImportCall p]\<rparr>"
    have step: "ImportPGPKeysFromString env p s = (Inr [\<lparr>KeyID = k\<rparr>], ?s')"
      by (simp add: ImportPGPKeysFromString_def imp)
    have unfold: "importLoop env inst (kp # cfg) s = importLoop env inst cfg ?s'"
      by (simp add: kp True step)
    from Cons.IH[OF rest, of ?s'] obtain s1 where
      s1: "importLoop env inst cfg ?s' = (Return (), s1)"
          "syncSemaphore s1 = syncSemaphore ?s'"
          "\<forall>i. map_of (keyring s1) i =
             (if i \<in> fst ` set cfg \<and> map_of inst i = None \<and> map_of (keyring ?s') i = None
              then Some False else map_of (keyring ?s') i)"
      by blast
    have "map_of (keyring s1) i =
        (if i \<in> fst ` set (kp # cfg) \<and> map_of inst i = None \<and> map_of (keyring s) i = None
         then Some False else map_of (keyring s) i)" for i
      using s1(3)[rule_format, of i] True
      by (auto simp: kp map_of_install split: if_splits)
    with s1(1,2) unfold show ?thesis by simp
  qed
qed

lemma importLoop_secret:
  "map_of (keyring (snd (importLoop env inst cfg s))) i = Some True \<longleftrightarrow>
   map_of (keyring s) i = Some True"
proof (induction cfg arbitrary: s)
  case Nil
  show ?case by simp
next
  case (Cons kp cfg)
  obtain k p where kp: "kp = (k, p)" by (cases kp)
  let ?s' = "snd (ImportPGPKeysFromString env p s)"
  have a: "map_of (keyring (snd (importLoop env inst cfg ?s'))) i = Some True \<longleftrightarrow>
      map_of (keyring s) i = Some True"
    by (simp add: Cons.IH Import_secret)
  have b: "map_of (keyring ?s') i = Some True \<longleftrightarrow> map_of (keyring s) i = Some True"
    by (rule Import_secret)
  have "snd (importLoop env inst (kp # cfg) s) = snd (importLoop env inst cfg s) \<or>
      snd (importLoop env inst (kp # cfg) s) = snd (importLoop env inst cfg ?s') \<or>
      snd (importLoop env inst (kp # cfg) s) = ?s'"
    by (simp add: kp split: prod.splits sum.splits list.splits)
  with a b Cons.IH[of s] show ?case by metis
qed

subsection \<open>The delete loop\<close>

lemma deleteLoop_skips:
  "\<forall>(k, v) \<in> set inst. map_of cfg k \<noteq> None \<Longrightarrow> deleteLoop env cfg inst s = s"
  by (induction inst arbitrary: s) auto

lemma deleteLoop_checks:
  "\<exists>new. secretChecks (deleteLoop env cfg inst s) = secretChecks s @ new"
proof (induction inst arbitrary: s)
  case Nil
  show ?case by simp
next
  case (Cons kv inst)
  obtain k v where kv: "kv = (k, v)" by (cases kv)
  let ?s1 = "s\<lparr>secretChecks := secretChecks s @ [k]\<rparr>"
  from Cons.IH[of s] Cons.IH[of ?s1] Cons.IH[of "snd (DeletePGPKey env k ?s1)"]
  show ?case
    unfolding kv deleteLoop_step by (auto simp: Delete_checks)
qed

text \<open>
  When none of the checks that the delete loop makes fails, the check of the first key
  does not fail: \<open>F\<close> is the record of the checks at the end of the loop.
\<close>

lemma deleteLoop_first_check:
  assumes "secretChecks (deleteLoop env cfg ((k, v) # inst) s) = F"
    and "\<forall>n. length (secretChecks s) \<le> n \<and> n < length F \<longrightarrow>
           gpg_IsSecretKey_fault env n (F ! n) = None"
    and "map_of cfg k = None"
  shows "gpg_IsSecretKey_fault env (length (secretChecks s)) k = None"
proof -
  let ?s1 = "s\<lparr>secretChecks := secretChecks s @ [k]\<rparr>"
  have "\<exists>new. F = secretChecks s @ k # new"
    using deleteLoop_checks[of env cfg inst ?s1]
      deleteLoop_checks[of env cfg inst "snd (DeletePGPKey env k ?s1)"] assms(1,3)
    unfolding deleteLoop_step by (auto simp: Delete_checks)
  then obtain new where F: "F = secretChecks s @ k # new" by blast
  then have "length (secretChecks s) < length F" and "F ! length (secretChecks s) = k"
    by simp_all
  with assms(2) show ?thesis by auto
qed

lemma deleteLoop_deletes:
  assumes "secretChecks (deleteLoop env cfg ((k, v) # inst) s) = F"
    and "\<forall>n. length (secretChecks s) \<le> n \<and> n < length F \<longrightarrow>
           gpg_IsSecretKey_fault env n (F ! n) = None"
    and "map_of cfg k = None"
    and "map_of (keyring s) k \<noteq> Some True"
  shows "deleteLoop env cfg ((k, v) # inst) s =
     deleteLoop env cfg inst
       (snd (DeletePGPKey env k (s\<lparr>secretChecks := secretChecks s @ [k]\<rparr>)))"
proof -
  have "gpg_IsSecretKey_fault env (length (secretChecks s)) k = None"
    using assms(1,2,3) by (rule deleteLoop_first_check)
  with assms(4) have "fst (IsSecretKey env k s) = Inr False"
    by (simp add: IsSecretKey_result)
  with assms(3) show ?thesis unfolding deleteLoop_step by simp
qed

lemma deleteLoop_calls:
  assumes "secretChecks (deleteLoop env cfg inst s) = F"
    and "\<forall>n. length (secretChecks s) \<le> n \<and> n < length F \<longrightarrow>
           gpg_IsSecretKey_fault env n (F ! n) = None"
    and "\<forall>k \<in> fst ` set inst. map_of (keyring s) k \<noteq> Some True"
  shows "\<exists>new. gpg_calls (deleteLoop env cfg inst s) = gpg_calls s @ new \<and>
           (\<forall>(k, v) \<in> set inst. map_of cfg k = None \<longrightarrow> DeleteCall k \<in> set new)"
  using assms
proof (induction inst arbitrary: s)
  case Nil
  then show ?case by simp
next
  case (Cons kv inst)
  obtain k v where kv: "kv = (k, v)" by (cases kv)
  from Cons.prems(3) have rest: "\<forall>k \<in> fst ` set inst. map_of (keyring s) k \<noteq> Some True"
    by simp
  show ?case
  proof (cases "map_of cfg k = None")
    case False
    then have same: "deleteLoop env cfg (kv # inst) s = deleteLoop env cfg inst s"
      by (auto simp: kv)
    from Cons.IH[OF Cons.prems(1)[unfolded same] Cons.prems(2) rest] same False kv
    show ?thesis by auto
  next
    case True
    let ?s1 = "s\<lparr>secretChecks := secretChecks s @ [k]\<rparr>"
    let ?s' = "snd (DeletePGPKey env k ?s1)"
    from Cons.prems(3) kv have ns: "map_of (keyring s) k \<noteq> Some True" by simp
    have unfold: "deleteLoop env cfg (kv # inst) s = deleteLoop env cfg inst ?s'"
      unfolding kv
      using Cons.prems(1)[unfolded kv] Cons.prems(2) True ns by (rule deleteLoop_deletes)
    have F': "secretChecks (deleteLoop env cfg inst ?s') = F"
      using Cons.prems(1) unfold by simp
    have ok': "\<forall>n. length (secretChecks ?s') \<le> n \<and> n < length F \<longrightarrow>
        gpg_IsSecretKey_fault env n (F ! n) = None"
      using Cons.prems(2) by (simp add: Delete_checks)
    have ns': "\<forall>k \<in> fst ` set inst. map_of (keyring ?s') k \<noteq> Some True"
    proof
      fix j assume "j \<in> fst ` set inst"
      with rest have "map_of (keyring ?s1) j \<noteq> Some True" by auto
      then show "map_of (keyring ?s') j \<noteq> Some True"
        using Delete_secret[of env k ?s1 j] by auto
    qed
    from Cons.IH[OF F' ok' ns'] obtain new where
      n: "gpg_calls (deleteLoop env cfg inst ?s') = gpg_calls ?s' @ new"
         "\<forall>(k, v) \<in> set inst. map_of cfg k = None \<longrightarrow> DeleteCall k \<in> set new"
      by blast
    have "gpg_calls (deleteLoop env cfg (kv # inst) s) = gpg_calls s @ (DeleteCall k # new)"
      using n(1) unfold by (simp add: Delete_calls)
    moreover have "\<forall>(k', v) \<in> set (kv # inst). map_of cfg k' = None \<longrightarrow>
        DeleteCall k' \<in> set (DeleteCall k # new)"
      using n(2) kv by auto
    ultimately show ?thesis by blast
  qed
qed

lemma deleteLoop_removes:
  assumes "secretChecks (deleteLoop env cfg inst s) = F"
    and "\<forall>n. length (secretChecks s) \<le> n \<and> n < length F \<longrightarrow>
           gpg_IsSecretKey_fault env n (F ! n) = None"
    and "\<forall>k \<in> fst ` set inst. map_of (keyring s) k \<noteq> Some True"
    and "\<forall>k \<in> fst ` set inst. map_of cfg k = None \<longrightarrow> gpg_DeletePGPKey_fault env k = None"
  shows "map_of (keyring (deleteLoop env cfg inst s)) i =
           (if i \<in> fst ` set inst \<and> map_of cfg i = None then None else map_of (keyring s) i)"
  using assms
proof (induction inst arbitrary: s)
  case Nil
  then show ?case by simp
next
  case (Cons kv inst)
  obtain k v where kv: "kv = (k, v)" by (cases kv)
  from Cons.prems have rest: "\<forall>k \<in> fst ` set inst. map_of (keyring s) k \<noteq> Some True"
    and rest2: "\<forall>k \<in> fst ` set inst. map_of cfg k = None \<longrightarrow>
      gpg_DeletePGPKey_fault env k = None"
    by simp_all
  show ?case
  proof (cases "map_of cfg k = None")
    case False
    then have same: "deleteLoop env cfg (kv # inst) s = deleteLoop env cfg inst s"
      by (auto simp: kv)
    from Cons.IH[OF Cons.prems(1)[unfolded same] Cons.prems(2) rest rest2] same False kv
    show ?thesis by auto
  next
    case True
    let ?s1 = "s\<lparr>secretChecks := secretChecks s @ [k]\<rparr>"
    let ?s' = "snd (DeletePGPKey env k ?s1)"
    from Cons.prems(3) kv have ns: "map_of (keyring s) k \<noteq> Some True" by simp
    from Cons.prems(4) kv True have nf: "gpg_DeletePGPKey_fault env k = None" by simp
    have unfold: "deleteLoop env cfg (kv # inst) s = deleteLoop env cfg inst ?s'"
      unfolding kv
      using Cons.prems(1)[unfolded kv] Cons.prems(2) True ns by (rule deleteLoop_deletes)
    have F': "secretChecks (deleteLoop env cfg inst ?s') = F"
      using Cons.prems(1) unfold by simp
    have ok': "\<forall>n. length (secretChecks ?s') \<le> n \<and> n < length F \<longrightarrow>
        gpg_IsSecretKey_fault env n (F ! n) = None"
      using Cons.prems(2) by (simp add: Delete_checks)
    have gone: "map_of (keyring ?s') = (map_of (keyring s))(k := None)"
      by (simp add: DeletePGPKey_def nf delete_conv')
    have ns': "\<forall>k \<in> fst ` set inst. map_of (keyring ?s') k \<noteq> Some True"
      using rest by (simp add: gone)
    from Cons.IH[OF F' ok' ns' rest2] have
      "map_of (keyring (deleteLoop env cfg inst ?s')) i =
         (if i \<in> fst ` set inst \<and> map_of cfg i = None then None else map_of (keyring ?s') i)" .
    then show ?thesis unfolding unfold using True by (auto simp: gone kv)
  qed
qed

subsection \<open>Convergence\<close>

lemma ListConfigured_validated:
  assumes "ListConfiguredGPGPublicKeys env = Inr D"
  shows "distinct (map fst D)"
    and "\<forall>(i, p) \<in> set D. gpg_ValidatePGPKeys env p = Inr [i]"
proof -
  from assms obtain data where loop: "configuredLoop env data [] = Inr D"
    by (auto simp: ListConfiguredGPGPublicKeys_def split: sum.splits)
  note m = configuredLoop_Inr_map_of[OF loop]
  from m show d: "distinct (map fst D)" by simp
  have ok: "\<not> entry_rejected env k p" if "(k, p) \<in> set data" for k p
    using configuredLoop_Inl_iff[of env data "[]"] loop that by auto
  show "\<forall>(i, p) \<in> set D. gpg_ValidatePGPKeys env p = Inr [i]"
  proof (clarify)
    fix i p assume "(i, p) \<in> set D"
    with d have "map_of D i = Some p" by (rule map_of_is_SomeI)
    with m have "map_of (rev (declared env data)) i = Some p" by simp
    then have "(i, p) \<in> set (rev (declared env data))" by (rule map_of_SomeD)
    then obtain k where k: "(k, p) \<in> set data" "gpg_KeyID env k = i"
      by (auto simp: declared_def)
    from ok[OF k(1)] have "validatePGPKey env p = Inr (gpg_KeyID env k)"
      by (simp add: entry_rejected_iff)
    with k(2) show "gpg_ValidatePGPKeys env p = Inr [i]"
      by (simp add: validatePGPKey_Inr_iff)
  qed
qed

lemma range_sets:
  assumes "range_visits_once env"
  shows "set (range_configuredKeys env m) = set m"
    and "set (range_installedKeys env n) = set n"
  using assms by (auto simp: range_visits_once_def dest: mset_eq_setD)

lemma Sync_nothing_to_do:
  assumes rv: "range_visits_once env"
    and cfg: "ListConfiguredGPGPublicKeys env = Inr D"
    and eq: "set (nonSecretKeys (keyring t)) = fst ` set D"
  shows "gpg_calls (snd (SynchronizeGPGPublicKeys env t)) = gpg_calls t \<and>
         keyring (snd (SynchronizeGPGPublicKeys env t)) = keyring t"
proof (cases "syncSemaphore t")
  case True
  then show ?thesis by (simp add: Sync_locked)
next
  case free: False
  let ?t0 = "t\<lparr>syncSemaphore := True\<rparr>"
  obtain listed t1 where li: "ListInstalledGPGPublicKeys env ?t0 = (listed, t1)"
    by (cases "ListInstalledGPGPublicKeys env ?t0")
  have t1: "keyring t1 = keyring t" "gpg_calls t1 = gpg_calls t"
    using ListInstalled_other[of env ?t0] li by simp_all
  show ?thesis
  proof (cases listed)
    case (Inl err)
    with free cfg li t1 show ?thesis by (simp add: Sync_installed_error)
  next
    case (Inr inst)
    with li have inst: "ListInstalledGPGPublicKeys env ?t0 = (Inr inst, t1)" by simp
    have keys: "fst ` set inst = fst ` set D"
      using ListInstalled_keys[OF inst] eq by (simp add: set_nonSecretKeys)
    have "map_of inst k \<noteq> None" if "(k, p) \<in> set D" for k p
    proof -
      from that have "k \<in> fst ` set D" by (rule rev_image_eqI) simp
      with keys show ?thesis by (simp add: map_of_eq_None_iff)
    qed
    then have "\<forall>(k, p) \<in> set (range_configuredKeys env D). map_of inst k \<noteq> None"
      unfolding range_sets[OF rv] by auto
    then have il: "importLoop env inst (range_configuredKeys env D) t1 = (Return (), t1)"
      by (rule importLoop_skips)
    have "map_of D k \<noteq> None" if "(k, v) \<in> set inst" for k v
    proof -
      from that have "k \<in> fst ` set inst" by (rule rev_image_eqI) simp
      with keys show ?thesis by (simp add: map_of_eq_None_iff)
    qed
    then have "\<forall>(k, v) \<in> set (range_installedKeys env inst). map_of D k \<noteq> None"
      unfolding range_sets[OF rv] by auto
    then have dl: "deleteLoop env D (range_installedKeys env inst) t1 = t1"
      by (rule deleteLoop_skips)
    show ?thesis
      using Sync_reconciled[OF free cfg inst il] t1 by (simp add: dl)
  qed
qed

text \<open>
  Claim C1, amended. Let \<open>range\<close> visit every entry once, let no declared key ID be
  marked secret in the keyring, let \<open>SynchronizeGPGPublicKeys\<close> return without an error
  and let every import, every delete and every check for a secret key it has made have
  succeeded. Then the non-secret keys of the keyring are the declared key IDs \<open>D\<close>. And
  from every state whose non-secret keys are the declared ones already, a call makes no
  import and no delete and leaves the keyring as it is.
\<close>

theorem SynchronizeGPGPublicKeys_converges:
  assumes rv: "range_visits_once env"
    and run: "SynchronizeGPGPublicKeys env s = (Return None, s')"
    and cfg: "ListConfiguredGPGPublicKeys env = Inr D"
    and ok: "\<forall>c \<in> set (new_calls s s'). call_succeeds env c"
    and checks: "checks_succeed env s s'"
    and nosec: "\<forall>(k, p) \<in> set D. map_of (keyring s) k \<noteq> Some True"
  shows "set (nonSecretKeys (keyring s')) = fst ` set D \<and>
         (\<forall>t. set (nonSecretKeys (keyring t)) = fst ` set D \<longrightarrow>
              gpg_calls (snd (SynchronizeGPGPublicKeys env t)) = gpg_calls t \<and>
              keyring (snd (SynchronizeGPGPublicKeys env t)) = keyring t)"
proof
  show "\<forall>t. set (nonSecretKeys (keyring t)) = fst ` set D \<longrightarrow>
      gpg_calls (snd (SynchronizeGPGPublicKeys env t)) = gpg_calls t \<and>
      keyring (snd (SynchronizeGPGPublicKeys env t)) = keyring t"
    using Sync_nothing_to_do[OF rv cfg] by blast
next
  let ?s0 = "s\<lparr>syncSemaphore := True\<rparr>"
  let ?L = "range_configuredKeys env D"
  have free: "\<not> syncSemaphore s"
    using run by (auto simp: Sync_locked)
  obtain listed s1 where li: "ListInstalledGPGPublicKeys env ?s0 = (listed, s1)"
    by (cases "ListInstalledGPGPublicKeys env ?s0")
  obtain inst where listed: "listed = Inr inst"
    using run free cfg li Sync_installed_error[of s env D _ s1]
    by (cases listed) auto
  with li have inst: "ListInstalledGPGPublicKeys env ?s0 = (Inr inst, s1)" by simp
  have s1: "keyring s1 = keyring s" "gpg_calls s1 = gpg_calls s"
      "syncSemaphore s1 = True"
    using ListInstalled_other[of env ?s0] li by simp_all
  obtain new0 where checks1: "secretChecks s1 = secretChecks s @ new0"
    using ListInstalled_other[of env ?s0] li by auto
  obtain r s2 where il: "importLoop env inst ?L s1 = (r, s2)"
    by (cases "importLoop env inst ?L s1")
  have r: "r = Return ()"
    using run Sync_panic[OF free cfg inst] il by (cases r) auto
  have checks2: "secretChecks s2 = secretChecks s1"
    using importLoop_checks[of env inst ?L s1] il by simp
  let ?s3 = "deleteLoop env D (range_installedKeys env inst) s2"
  have s': "s' = ?s3\<lparr>syncSemaphore := False\<rparr>"
    using run Sync_reconciled[OF free cfg inst il[unfolded r]] by simp
  note D = ListConfigured_validated[OF cfg]
  have inst_keys: "fst ` set inst = {k. map_of (keyring s) k = Some False}"
    using ListInstalled_keys[OF inst] by simp
  have inst_None: "map_of inst k = None \<longleftrightarrow> map_of (keyring s) k \<noteq> Some False" for k
    using map_of_None_iff_installed[OF inst] by simp
  txt \<open>None of the checks of the delete loop has failed, and none of its keys is secret.\<close>
  have F: "secretChecks ?s3 = secretChecks s'" by (simp add: s')
  have no_fault: "\<forall>n. length (secretChecks s2) \<le> n \<and> n < length (secretChecks s') \<longrightarrow>
      gpg_IsSecretKey_fault env n (secretChecks s' ! n) = None"
    using checks by (simp add: checks_succeed_def checks2 checks1)
  have not_secret: "\<forall>k \<in> fst ` set (range_installedKeys env inst).
      map_of (keyring s2) k \<noteq> Some True"
  proof
    fix k assume "k \<in> fst ` set (range_installedKeys env inst)"
    then have "k \<in> fst ` set inst" by (simp add: range_sets[OF rv])
    with inst_keys have "map_of (keyring s1) k \<noteq> Some True" by (auto simp: s1)
    then show "map_of (keyring s2) k \<noteq> Some True"
      using importLoop_secret[of env inst ?L s1 k] il by simp
  qed
  txt \<open>The calls made.\<close>
  from importLoop_calls[OF il] obtain new1 where
    new1: "gpg_calls s2 = gpg_calls s @ new1"
      "\<forall>(k, p) \<in> set ?L. map_of inst k = None \<longrightarrow> ImportCall p \<in> set new1"
    using r s1 by auto
  from deleteLoop_calls[OF F no_fault not_secret] obtain new2 where
    new2: "gpg_calls ?s3 = gpg_calls s2 @ new2"
      "\<forall>(k, v) \<in> set (range_installedKeys env inst). map_of D k = None \<longrightarrow>
         DeleteCall k \<in> set new2"
    by blast
  have calls: "new_calls s s' = new1 @ new2"
    by (simp add: new_calls_def s' new1(1) new2(1))
  txt \<open>Every import and every delete attempted has succeeded.\<close>
  have imp_ok: "\<forall>(k, p) \<in> set ?L. map_of inst k = None \<longrightarrow>
      gpg_ImportPGPKeysFromString_result env p = Inr [\<lparr>KeyID = k\<rparr>]"
  proof (clarify)
    fix k p assume kp: "(k, p) \<in> set ?L" and "map_of inst k = None"
    with new1(2) have "ImportCall p \<in> set (new_calls s s')" by (auto simp: calls)
    with ok have "call_succeeds env (ImportCall p)" by (rule bspec)
    then obtain keys where
      keys: "gpg_ImportPGPKeysFromString_result env p = Inr keys"
        "gpg_ValidatePGPKeys env p = Inr (map KeyID keys)"
      by (auto split: sum.splits)
    from kp have "(k, p) \<in> set D" by (simp add: range_sets[OF rv])
    with D(2) have "gpg_ValidatePGPKeys env p = Inr [k]" by auto
    with keys(2) have "map KeyID keys = [k]" by simp
    then have "keys = [\<lparr>KeyID = k\<rparr>]" by (cases keys) auto
    with keys(1) show "gpg_ImportPGPKeysFromString_result env p = Inr [\<lparr>KeyID = k\<rparr>]"
      by simp
  qed
  have del_ok: "\<forall>k \<in> fst ` set (range_installedKeys env inst). map_of D k = None \<longrightarrow>
      gpg_DeletePGPKey_fault env k = None"
  proof (intro ballI impI)
    fix k assume "k \<in> fst ` set (range_installedKeys env inst)" and "map_of D k = None"
    with new2(2) have "DeleteCall k \<in> set (new_calls s s')" by (auto simp: calls)
    with ok have "call_succeeds env (DeleteCall k)" by (rule bspec)
    then show "gpg_DeletePGPKey_fault env k = None" by simp
  qed
  txt \<open>The keyring after the imports and after the deletes.\<close>
  from importLoop_installs[OF imp_ok, of s1] il have
    m1: "map_of (keyring s2) i =
       (if i \<in> fst ` set D \<and> map_of inst i = None \<and> map_of (keyring s) i = None
        then Some False else map_of (keyring s) i)" for i
    by (auto simp: range_sets[OF rv] s1)
  have m2: "map_of (keyring ?s3) i =
      (if i \<in> fst ` set inst \<and> map_of D i = None then None else map_of (keyring s2) i)" for i
    using deleteLoop_removes[OF F no_fault not_secret del_ok, of i]
    by (simp add: range_sets[OF rv])
  have "map_of (keyring s') i = Some False \<longleftrightarrow> i \<in> fst ` set D" for i
  proof
    assume a: "map_of (keyring s') i = Some False"
    show "i \<in> fst ` set D"
    proof (rule ccontr)
      assume n: "i \<notin> fst ` set D"
      then have dn: "map_of D i = None" by (simp add: map_of_eq_None_iff)
      from n have "map_of (keyring s2) i = map_of (keyring s) i" by (simp add: m1)
      with a dn show False
        by (auto simp: s' m2 inst_keys split: if_splits)
    qed
  next
    assume d: "i \<in> fst ` set D"
    then have dn: "map_of D i \<noteq> None" by (simp add: map_of_eq_None_iff)
    from d nosec have ns: "map_of (keyring s) i \<noteq> Some True" by auto
    have "map_of (keyring s2) i = Some False"
    proof (cases "map_of (keyring s) i")
      case None
      with d show ?thesis by (simp add: m1 inst_None)
    next
      case (Some b)
      with ns have "map_of (keyring s) i = Some False" by (cases b) auto
      then show ?thesis by (simp add: m1)
    qed
    with dn show "map_of (keyring s') i = Some False" by (simp add: s' m2)
  qed
  then show "set (nonSecretKeys (keyring s')) = fst ` set D"
    by (auto simp: set_nonSecretKeys)
qed

subsection \<open>The properties on the examples\<close>

lemma exampleGnuPG_range: "range_visits_once exampleGnuPG"
  by (simp add: range_visits_once_def exampleGnuPG_def)

lemma exampleGnuPG_installed:
  "ListInstalledGPGPublicKeys exampleGnuPG (exampleState\<lparr>syncSemaphore := True\<rparr>) =
     (Inr [(''B'', \<lparr>KeyID = ''B''\<rparr>), (''C'', \<lparr>KeyID = ''C''\<rparr>)],
      exampleState\<lparr>syncSemaphore := True, secretChecks := [''B'', ''C'', ''S'']\<rparr>)"
  by (simp add: ListInstalledGPGPublicKeys_def GetInstalledPGPKeys_def IsSecretKey_def
        exampleGnuPG_def exampleState_def)

lemma exampleGnuPG_run:
  "SynchronizeGPGPublicKeys exampleGnuPG exampleState = (Return None, exampleReconciled)"
proof -
  have free: "\<not> syncSemaphore exampleState" by (simp add: exampleState_def)
  have r1: "range_configuredKeys exampleGnuPG [(''A'', ''key A''), (''B'', ''key B'')]
      = [(''B'', ''key B''), (''A'', ''key A'')]"
    by (simp add: exampleGnuPG_def)
  have r2: "range_installedKeys exampleGnuPG [(''B'', \<lparr>KeyID = ''B''\<rparr>), (''C'', \<lparr>KeyID = ''C''\<rparr>)]
      = [(''C'', \<lparr>KeyID = ''C''\<rparr>), (''B'', \<lparr>KeyID = ''B''\<rparr>)]"
    by (simp add: exampleGnuPG_def)
  have imp: "gpg_ImportPGPKeysFromString_result exampleGnuPG ''key A'' = Inr [\<lparr>KeyID = ''A''\<rparr>]"
    by (simp add: exampleGnuPG_def)
  have nf: "gpg_IsSecretKey_fault exampleGnuPG n ''C'' = None"
    "gpg_DeletePGPKey_fault exampleGnuPG ''C'' = None" for n
    by (simp_all add: exampleGnuPG_def)
  let ?s1 = "exampleState\<lparr>syncSemaphore := True, secretChecks := [''B'', ''C'', ''S'']\<rparr>"
  let ?s2 = "\<lparr>syncSemaphore = True,
      keyring = [(''B'', False), (''C'', False), (''S'', True), (''A'', False)],
      gpg_calls = [ImportCall ''key A''],
      secretChecks = [''B'', ''C'', ''S'']\<rparr>"
  have il: "importLoop exampleGnuPG [(''B'', \<lparr>KeyID = ''B''\<rparr>), (''C'', \<lparr>KeyID = ''C''\<rparr>)]
      (range_configuredKeys exampleGnuPG [(''A'', ''key A''), (''B'', ''key B'')]) ?s1
      = (Return (), ?s2)"
    unfolding r1
    by (simp add: ImportPGPKeysFromString_def imp install_def exampleState_def)
  have dl: "deleteLoop exampleGnuPG [(''A'', ''key A''), (''B'', ''key B'')]
      (range_installedKeys exampleGnuPG [(''B'', \<lparr>KeyID = ''B''\<rparr>), (''C'', \<lparr>KeyID = ''C''\<rparr>)]) ?s2
      = exampleReconciled\<lparr>syncSemaphore := True\<rparr>"
    unfolding r2
    by (simp add: IsSecretKey_def DeletePGPKey_def nf exampleReconciled_def)
  show ?thesis
    using Sync_reconciled[OF free exampleGnuPG_configured exampleGnuPG_installed il]
    by (simp add: dl exampleReconciled_def)
qed

text \<open>The example of the spec meets every hypothesis of the theorem.\<close>

theorem SynchronizeGPGPublicKeys_converges_witness:
  "range_visits_once exampleGnuPG \<and>
   SynchronizeGPGPublicKeys exampleGnuPG exampleState = (Return None, exampleReconciled) \<and>
   ListConfiguredGPGPublicKeys exampleGnuPG = Inr [(''A'', ''key A''), (''B'', ''key B'')] \<and>
   new_calls exampleState exampleReconciled = [ImportCall ''key A'', DeleteCall ''C''] \<and>
   call_succeeds exampleGnuPG (ImportCall ''key A'') \<and>
   call_succeeds exampleGnuPG (DeleteCall ''C'') \<and>
   secretChecks exampleReconciled = secretChecks exampleState @ [''B'', ''C'', ''S'', ''C''] \<and>
   checks_succeed exampleGnuPG exampleState exampleReconciled \<and>
   map_of (keyring exampleState) ''A'' = None \<and>
   map_of (keyring exampleState) ''B'' = Some False \<and>
   set (nonSecretKeys (keyring exampleReconciled)) = {''A'', ''B''} \<and>
   map_of (keyring exampleReconciled) ''S'' = Some True \<and>
   gpg_calls (snd (SynchronizeGPGPublicKeys exampleGnuPG exampleReconciled))
     = gpg_calls exampleReconciled \<and>
   keyring (snd (SynchronizeGPGPublicKeys exampleGnuPG exampleReconciled))
     = keyring exampleReconciled"
proof -
  have calls: "new_calls exampleState exampleReconciled = [ImportCall ''key A'', DeleteCall ''C'']"
    by (simp add: new_calls_def exampleState_def exampleReconciled_def)
  have ok: "\<forall>c \<in> set (new_calls exampleState exampleReconciled). call_succeeds exampleGnuPG c"
    unfolding calls by (simp add: exampleGnuPG_def)
  have made: "secretChecks exampleReconciled =
      secretChecks exampleState @ [''B'', ''C'', ''S'', ''C'']"
    by (simp add: exampleState_def exampleReconciled_def)
  have checks: "checks_succeed exampleGnuPG exampleState exampleReconciled"
    by (simp add: checks_succeed_def exampleGnuPG_def)
  have nosec: "\<forall>(k, p) \<in> set [(''A'', ''key A''), (''B'', ''key B'')].
      map_of (keyring exampleState) k \<noteq> Some True"
    by (simp add: exampleState_def)
  note conv = SynchronizeGPGPublicKeys_converges[OF exampleGnuPG_range exampleGnuPG_run
      exampleGnuPG_configured ok checks nosec]
  from conv have a: "set (nonSecretKeys (keyring exampleReconciled)) = {''A'', ''B''}"
    by auto
  from conv a have b:
    "gpg_calls (snd (SynchronizeGPGPublicKeys exampleGnuPG exampleReconciled))
       = gpg_calls exampleReconciled \<and>
     keyring (snd (SynchronizeGPGPublicKeys exampleGnuPG exampleReconciled))
       = keyring exampleReconciled"
    by simp
  have c: "call_succeeds exampleGnuPG (ImportCall ''key A'')"
    "call_succeeds exampleGnuPG (DeleteCall ''C'')"
    using ok unfolding calls by simp_all
  have d: "map_of (keyring exampleState) ''A'' = None"
    "map_of (keyring exampleState) ''B'' = Some False"
    "map_of (keyring exampleReconciled) ''S'' = Some True"
    by (simp_all add: exampleState_def exampleReconciled_def)
  from b have b1: "gpg_calls (snd (SynchronizeGPGPublicKeys exampleGnuPG exampleReconciled))
       = gpg_calls exampleReconciled"
    and b2: "keyring (snd (SynchronizeGPGPublicKeys exampleGnuPG exampleReconciled))
       = keyring exampleReconciled"
    by simp_all
  show ?thesis
    by (intro conjI)
       (fact exampleGnuPG_range exampleGnuPG_run exampleGnuPG_configured calls c made checks
          d a b1 b2)+
qed

lemma secretDeclared_configured:
  "ListConfiguredGPGPublicKeys secretDeclaredGnuPG = Inr [(''S'', ''key S'')]"
  by (simp add: ListConfiguredGPGPublicKeys_def secretDeclaredGnuPG_def exampleGnuPG_def
        validatePGPKey_def)

lemma secretDeclared_run:
  "SynchronizeGPGPublicKeys secretDeclaredGnuPG secretOnlyState =
     (Return None, secretOnlyReconciled)"
proof -
  have free: "\<not> syncSemaphore secretOnlyState" by (simp add: secretOnlyState_def)
  let ?s1 = "secretOnlyState\<lparr>syncSemaphore := True, secretChecks := [''S'']\<rparr>"
  have inst: "ListInstalledGPGPublicKeys secretDeclaredGnuPG
      (secretOnlyState\<lparr>syncSemaphore := True\<rparr>) = (Inr [], ?s1)"
    by (simp add: ListInstalledGPGPublicKeys_def GetInstalledPGPKeys_def IsSecretKey_def
        secretDeclaredGnuPG_def exampleGnuPG_def secretOnlyState_def)
  have imp: "gpg_ImportPGPKeysFromString_result secretDeclaredGnuPG ''key S'' = Inr [\<lparr>KeyID = ''S''\<rparr>]"
    by (simp add: secretDeclaredGnuPG_def exampleGnuPG_def)
  have rng: "range_configuredKeys secretDeclaredGnuPG [(''S'', ''key S'')] = [(''S'', ''key S'')]"
    "range_installedKeys secretDeclaredGnuPG [] = []"
    by (simp_all add: secretDeclaredGnuPG_def exampleGnuPG_def)
  have il: "importLoop secretDeclaredGnuPG []
      (range_configuredKeys secretDeclaredGnuPG [(''S'', ''key S'')]) ?s1 =
      (Return (), secretOnlyReconciled\<lparr>syncSemaphore := True\<rparr>)"
    unfolding rng
    by (simp add: ImportPGPKeysFromString_def imp install_def secretOnlyState_def
          secretOnlyReconciled_def)
  show ?thesis
    using Sync_reconciled[OF free secretDeclared_configured inst il]
    by (simp add: rng secretOnlyReconciled_def)
qed

text \<open>
  Claim C1 as stated, for every declared key set: when the ConfigMap declares the ID of a
  key that the keyring holds as a secret key, the run returns without an error, its one
  import succeeds, and the non-secret part of the keyring is empty and not \<open>D\<close>.
\<close>

theorem SynchronizeGPGPublicKeys_secret_declared_counterexample:
  "range_visits_once secretDeclaredGnuPG \<and>
   ListConfiguredGPGPublicKeys secretDeclaredGnuPG = Inr [(''S'', ''key S'')] \<and>
   SynchronizeGPGPublicKeys secretDeclaredGnuPG secretOnlyState =
     (Return None, secretOnlyReconciled) \<and>
   new_calls secretOnlyState secretOnlyReconciled = [ImportCall ''key S''] \<and>
   call_succeeds secretDeclaredGnuPG (ImportCall ''key S'') \<and>
   nonSecretKeys (keyring secretOnlyReconciled) = [] \<and>
   set (nonSecretKeys (keyring secretOnlyReconciled)) \<noteq> fst ` set [(''S'', ''key S'')]"
proof -
  have "range_visits_once secretDeclaredGnuPG"
    by (simp add: range_visits_once_def secretDeclaredGnuPG_def exampleGnuPG_def)
  moreover have "call_succeeds secretDeclaredGnuPG (ImportCall ''key S'')"
    by (simp add: secretDeclaredGnuPG_def exampleGnuPG_def)
  moreover have "nonSecretKeys (keyring secretOnlyReconciled) = []"
    by (simp add: nonSecretKeys_def secretOnlyReconciled_def)
  moreover have "new_calls secretOnlyState secretOnlyReconciled = [ImportCall ''key S'']"
    by (simp add: new_calls_def secretOnlyState_def secretOnlyReconciled_def)
  ultimately show ?thesis
    using secretDeclared_configured secretDeclared_run by simp
qed

text \<open>
  Claim C1 as stated does not ask that the checks for a secret key succeed. In the
  example, when the second check of \<open>C\<close> fails, the run returns without an error, its one
  import succeeds and it attempts no delete; \<open>C\<close> stays, and the non-secret keys of the
  keyring are \<open>A\<close>, \<open>B\<close> and \<open>C\<close>.
\<close>

lemma SynchronizeGPGPublicKeys_failed_check:
  "ListConfiguredGPGPublicKeys failedCheckGnuPG = Inr [(''A'', ''key A''), (''B'', ''key B'')] \<and>
   SynchronizeGPGPublicKeys failedCheckGnuPG exampleState = (Return None, failedCheckReconciled) \<and>
   new_calls exampleState failedCheckReconciled = [ImportCall ''key A''] \<and>
   call_succeeds failedCheckGnuPG (ImportCall ''key A'') \<and>
   gpg_IsSecretKey_fault failedCheckGnuPG 3 ''C'' = Some (PlainError ''gpg: keyring is locked'') \<and>
   set (nonSecretKeys (keyring failedCheckReconciled)) = {''A'', ''B'', ''C''} \<and>
   \<not> checks_succeed failedCheckGnuPG exampleState failedCheckReconciled"
proof -
  have cfg: "ListConfiguredGPGPublicKeys failedCheckGnuPG
      = Inr [(''A'', ''key A''), (''B'', ''key B'')]"
    by (simp add: ListConfiguredGPGPublicKeys_def failedCheckGnuPG_def exampleGnuPG_def
          validatePGPKey_def)
  have free: "\<not> syncSemaphore exampleState" by (simp add: exampleState_def)
  let ?s1 = "exampleState\<lparr>syncSemaphore := True, secretChecks := [''B'', ''C'', ''S'']\<rparr>"
  have inst: "ListInstalledGPGPublicKeys failedCheckGnuPG (exampleState\<lparr>syncSemaphore := True\<rparr>)
      = (Inr [(''B'', \<lparr>KeyID = ''B''\<rparr>), (''C'', \<lparr>KeyID = ''C''\<rparr>)], ?s1)"
    by (simp add: ListInstalledGPGPublicKeys_def GetInstalledPGPKeys_def IsSecretKey_def
          failedCheckGnuPG_def exampleGnuPG_def exampleState_def)
  have r1: "range_configuredKeys failedCheckGnuPG [(''A'', ''key A''), (''B'', ''key B'')]
      = [(''B'', ''key B''), (''A'', ''key A'')]"
    by (simp add: failedCheckGnuPG_def exampleGnuPG_def)
  have r2: "range_installedKeys failedCheckGnuPG
      [(''B'', \<lparr>KeyID = ''B''\<rparr>), (''C'', \<lparr>KeyID = ''C''\<rparr>)]
      = [(''C'', \<lparr>KeyID = ''C''\<rparr>), (''B'', \<lparr>KeyID = ''B''\<rparr>)]"
    by (simp add: failedCheckGnuPG_def exampleGnuPG_def)
  have imp: "gpg_ImportPGPKeysFromString_result failedCheckGnuPG ''key A''
      = Inr [\<lparr>KeyID = ''A''\<rparr>]"
    by (simp add: failedCheckGnuPG_def exampleGnuPG_def)
  have fails: "gpg_IsSecretKey_fault failedCheckGnuPG 3 ''C''
      = Some (PlainError ''gpg: keyring is locked'')"
    by (simp add: failedCheckGnuPG_def)
  then have fails3: "gpg_IsSecretKey_fault failedCheckGnuPG (Suc (Suc (Suc 0))) ''C''
      = Some (PlainError ''gpg: keyring is locked'')"
    by (simp add: numeral_3_eq_3)
  let ?s2 = "\<lparr>syncSemaphore = True,
      keyring = [(''B'', False), (''C'', False), (''S'', True), (''A'', False)],
      gpg_calls = [ImportCall ''key A''],
      secretChecks = [''B'', ''C'', ''S'']\<rparr>"
  have il: "importLoop failedCheckGnuPG [(''B'', \<lparr>KeyID = ''B''\<rparr>), (''C'', \<lparr>KeyID = ''C''\<rparr>)]
      (range_configuredKeys failedCheckGnuPG [(''A'', ''key A''), (''B'', ''key B'')]) ?s1
      = (Return (), ?s2)"
    unfolding r1
    by (simp add: ImportPGPKeysFromString_def imp install_def exampleState_def)
  have dl: "deleteLoop failedCheckGnuPG [(''A'', ''key A''), (''B'', ''key B'')]
      (range_installedKeys failedCheckGnuPG
         [(''B'', \<lparr>KeyID = ''B''\<rparr>), (''C'', \<lparr>KeyID = ''C''\<rparr>)]) ?s2
      = failedCheckReconciled\<lparr>syncSemaphore := True\<rparr>"
    unfolding r2
    by (simp add: IsSecretKey_def fails3 failedCheckReconciled_def)
  have run: "SynchronizeGPGPublicKeys failedCheckGnuPG exampleState
      = (Return None, failedCheckReconciled)"
    using Sync_reconciled[OF free cfg inst il]
    by (simp add: dl failedCheckReconciled_def)
  have calls: "new_calls exampleState failedCheckReconciled = [ImportCall ''key A'']"
    by (simp add: new_calls_def exampleState_def failedCheckReconciled_def)
  have ok: "call_succeeds failedCheckGnuPG (ImportCall ''key A'')"
    by (simp add: failedCheckGnuPG_def exampleGnuPG_def)
  have keys: "set (nonSecretKeys (keyring failedCheckReconciled)) = {''A'', ''B'', ''C''}"
    by (auto simp: set_nonSecretKeys failedCheckReconciled_def split: if_splits)
  have "3 \<in> {length (secretChecks exampleState)..<length (secretChecks failedCheckReconciled)}"
    and "secretChecks failedCheckReconciled ! 3 = ''C''"
    by (simp_all add: exampleState_def failedCheckReconciled_def)
  with fails have no: "\<not> checks_succeed failedCheckGnuPG exampleState failedCheckReconciled"
    unfolding checks_succeed_def by (metis option.distinct(1))
  show ?thesis
    by (intro conjI) (fact cfg run calls ok fails keys no)+
qed

text \<open>In the example the secret key \<open>S\<close> is kept and the one delete is that of \<open>C\<close>.\<close>

theorem SynchronizeGPGPublicKeys_never_deletes_secret_witness:
  "map_of (keyring exampleState) ''S'' = Some True \<and>
   map_of (keyring (snd (SynchronizeGPGPublicKeys exampleGnuPG exampleState))) ''S'' = Some True \<and>
   gpg_calls (snd (SynchronizeGPGPublicKeys exampleGnuPG exampleState))
     = gpg_calls exampleState @ [ImportCall ''key A'', DeleteCall ''C''] \<and>
   DeleteCall ''S'' \<notin> set [ImportCall ''key A'', DeleteCall ''C'']"
proof -
  have sec: "map_of (keyring exampleState) ''S'' = Some True"
    by (simp add: exampleState_def)
  from SynchronizeGPGPublicKeys_never_deletes_secret[OF sec, of exampleGnuPG]
  have "map_of (keyring (snd (SynchronizeGPGPublicKeys exampleGnuPG exampleState))) ''S'' = Some True"
    by simp
  moreover have "gpg_calls (snd (SynchronizeGPGPublicKeys exampleGnuPG exampleState))
     = gpg_calls exampleState @ [ImportCall ''key A'', DeleteCall ''C'']"
    unfolding exampleGnuPG_run by (simp add: exampleReconciled_def exampleState_def)
  ultimately show ?thesis using sec by simp
qed

section \<open>Properties of the repository service\<close>

subsection \<open>The storage, \<open>UpdateRepository\<close> and \<open>CreateRepository\<close>\<close>

lemma connected_simps [simp]:
  "Repository.Repo (connected r) = Repository.Repo r"
  "ConnectionState (connected r) =
     \<lparr>Status = ConnectionStatusSuccessful, Message = [], ModifiedAt = None\<rparr>"
  "connected (connected r) = connected r"
  by (simp_all add: connected_def)

lemma called_simps [simp]:
  "repositories (called c s) = repositories s"
  "repositoryCredentials (called c s) = repositoryCredentials s"
  "connectionStates (called c s) = connectionStates s"
  "db_calls (called c s) = db_calls s @ [c]"
  by (simp_all add: called_def)

lemma EnforceErr_allowed [simp]:
  "enf_Enforce srv claims res act obj \<Longrightarrow> enf_EnforceErr srv claims res act obj = None"
  by (simp add: enf_EnforceErr_def)

lemma EnforceErr_denied [simp]:
  "\<not> enf_Enforce srv claims res act obj \<Longrightarrow>
   enf_EnforceErr srv claims res act obj = Some permissionDenied"
  by (simp add: enf_EnforceErr_def permissionDenied_def)

text \<open>What the calls to the storage leave of the state.\<close>

lemma db_GetRepository_store [simp]:
  "snd (db_GetRepository srv url s) = called (GetRepositoryCall url) s"
  by (simp add: db_GetRepository_def split: option.splits)

lemma db_GetRepositoryCredentials_store [simp]:
  "snd (db_GetRepositoryCredentials srv url s) = called (GetRepositoryCredentialsCall url) s"
  by (simp add: db_GetRepositoryCredentials_def split: option.splits)

lemma db_GetRepository_stored:
  "db_fault srv (GetRepositoryCall url) = None \<Longrightarrow> map_of (repositories s) url = Some r \<Longrightarrow>
   db_GetRepository srv url s = (Inr r, called (GetRepositoryCall url) s)"
  by (simp add: db_GetRepository_def)

lemma db_GetRepository_Inr:
  "fst (db_GetRepository srv url s) = Inr r \<Longrightarrow> map_of (repositories s) url = Some r"
  by (simp add: db_GetRepository_def split: option.splits)


lemma db_CreateRepository_Inr:
  "fst (db_CreateRepository srv r s) = Inr repo \<Longrightarrow> repo = r"
  by (simp add: db_CreateRepository_def split: option.splits)


lemma db_UpdateRepository_other [simp]:
  "repositoryCredentials (snd (db_UpdateRepository srv r s)) = repositoryCredentials s"
  "connectionStates (snd (db_UpdateRepository srv r s)) = connectionStates s"
  by (simp_all add: db_UpdateRepository_def split: option.splits)

lemma testedCredentials_store [simp]:
  "repositories (snd (testedCredentials srv r s)) = repositories s"
  "repositoryCredentials (snd (testedCredentials srv r s)) = repositoryCredentials s"
  "connectionStates (snd (testedCredentials srv r s)) = connectionStates s"
  by (simp_all add: testedCredentials_def)




text \<open>\<open>UpdateRepository\<close>.\<close>

lemma Update_stored:
  "enf_Enforce srv claims ResourceRepositories ActionUpdate (Repository.Repo (RepoUpdateRequest.Repo q)) \<Longrightarrow>
   db_fault srv (UpdateRepositoryCall (Repository.Repo (RepoUpdateRequest.Repo q))) = None \<Longrightarrow>
   map_of (repositories s) (Repository.Repo (RepoUpdateRequest.Repo q)) = Some existing \<Longrightarrow>
   UpdateRepository srv claims q s =
     ((Some (Repository_of_URL (Repository.Repo (RepoUpdateRequest.Repo q))), None),
      called (UpdateRepositoryCall (Repository.Repo (RepoUpdateRequest.Repo q)))
        (s\<lparr>repositories := AList.update (Repository.Repo (RepoUpdateRequest.Repo q))
              (RepoUpdateRequest.Repo q) (repositories s)\<rparr>))"
  by (simp add: UpdateRepository_def db_UpdateRepository_def)

lemma Update_result:
  assumes "Repository.Repo (RepoUpdateRequest.Repo q') = Repository.Repo (RepoUpdateRequest.Repo q)"
    and "repositories t = repositories s"
  shows "fst (UpdateRepository srv claims q' t) = fst (UpdateRepository srv claims q s)"
  using assms
  by (simp add: UpdateRepository_def db_UpdateRepository_def enf_EnforceErr_def
        split: option.splits)

lemma Update_repositories:
  assumes "repositories t = repositories s"
  shows "repositories (snd (UpdateRepository srv claims q t))
       = repositories (snd (UpdateRepository srv claims q s))"
  using assms
  by (simp add: UpdateRepository_def db_UpdateRepository_def enf_EnforceErr_def
        split: option.splits)

lemma Update_store:
  "snd (UpdateRepository srv claims q s) = s \<or>
   snd (UpdateRepository srv claims q s) = snd (db_UpdateRepository srv (RepoUpdateRequest.Repo q) s)"
  by (cases "db_UpdateRepository srv (RepoUpdateRequest.Repo q) s")
     (simp add: UpdateRepository_def split: option.splits)

lemma Update_other [simp]:
  "repositoryCredentials (snd (UpdateRepository srv claims q s)) = repositoryCredentials s"
  "connectionStates (snd (UpdateRepository srv claims q s)) = connectionStates s"
  using Update_store[of srv claims q s] by auto

lemma Update_returns:
  "UpdateRepository srv claims q s = ((Some rec, err), s') \<Longrightarrow>
   rec = Repository_of_URL (Repository.Repo (RepoUpdateRequest.Repo q))"
  by (auto simp: UpdateRepository_def split: option.splits prod.splits)

lemma UpdateCredentials_returns:
  "UpdateRepositoryCredentials srv claims q s = ((Some rec, err), s') \<Longrightarrow>
   rec = Repository_of_URL (Repository.Repo (RepoUpdateRequest.Repo q))"
  by (auto simp: UpdateRepositoryCredentials_def split: option.splits prod.splits)

text \<open>The ways through \<open>CreateRepository\<close>.\<close>

lemma CreateRepository_credentials:
  "(if \<not> Repository_HasCredentials srv r then
      db_GetRepositoryCredentials srv (Repository.Repo r) s
    else
      (Inr (Some (Repository_CopyCredentialsFrom srv
                    (Repository_of_URL (Repository.Repo r)) r)), s))
   = testedCredentials srv r s"
  by (simp add: testedCredentials_def)

lemma Create_denied:
  "\<not> enf_Enforce srv claims ResourceRepositories ActionCreate (Repository.Repo (RepoCreateRequest.Repo q)) \<Longrightarrow>
   CreateRepository srv claims q s = (Return (None, Some permissionDenied), s)"
  by (simp add: CreateRepository_def)

lemma Create_unreachable:
  assumes "enf_Enforce srv claims ResourceRepositories ActionCreate (Repository.Repo (RepoCreateRequest.Repo q))"
    and "connectionTest srv (RepoCreateRequest.Repo q) s = Some err"
  shows "CreateRepository srv claims q s =
     (Return (None, Some err), snd (testedCredentials srv (RepoCreateRequest.Repo q) s))"
  using assms
  by (cases "testedCredentials srv (RepoCreateRequest.Repo q) s")
     (auto simp: CreateRepository_def CreateRepository_credentials connectionTest_def Let_def
        split: sum.splits)

lemma Create_tested:
  assumes "enf_Enforce srv claims ResourceRepositories ActionCreate (Repository.Repo (RepoCreateRequest.Repo q))"
    and "connectionTest srv (RepoCreateRequest.Repo q) s = None"
  shows "CreateRepository srv claims q s =
     (case db_CreateRepository srv (connected (RepoCreateRequest.Repo q))
             (snd (testedCredentials srv (RepoCreateRequest.Repo q) s)) of
        (created, s2) \<Rightarrow>
          if status_Code (err_of created) = AlreadyExists then conflict srv claims q s2
          else
            (case created of
               Inl err \<Rightarrow> (Panic ''nil pointer dereference'', s2)
             | Inr repo \<Rightarrow>
                 (Return (Some (Repository_of_URL (Repository.Repo repo)), None), s2)))"
proof -
  obtain tested s1 where tc: "testedCredentials srv (RepoCreateRequest.Repo q) s = (tested, s1)"
    by (cases "testedCredentials srv (RepoCreateRequest.Repo q) s")
  with assms(2) obtain repo where repo: "tested = Inr repo"
    by (cases tested) (simp_all add: connectionTest_def)
  from assms(2) tc repo have test:
    "git_TestRepo srv (Repository.Repo (RepoCreateRequest.Repo q))
       (argo_GetRepoCreds srv repo) (Repository_IsInsecure srv (RepoCreateRequest.Repo q))
       (EnableLFS (RepoCreateRequest.Repo q)) = None"
    by (simp add: connectionTest_def)
  have same: "existing\<lparr>ConnectionState := \<lparr>Status = ConnectionStatusSuccessful, Message = [],
      ModifiedAt = None\<rparr>\<rparr> = connected existing" for existing
    by (simp add: connected_def)
  show ?thesis
    using assms(1)
    by (simp add: CreateRepository_def CreateRepository_credentials tc repo test Let_def
          conflict_def same specDiffers_def
          split: prod.splits sum.splits)
qed

lemma db_Create_new:
  "db_fault srv (CreateRepositoryCall (Repository.Repo r)) = None \<Longrightarrow>
   map_of (repositories s) (Repository.Repo r) = None \<Longrightarrow>
   db_CreateRepository srv r s =
     (Inr r, called (CreateRepositoryCall (Repository.Repo r))
               (s\<lparr>repositories := repositories s @ [(Repository.Repo r, r)]\<rparr>))"
  by (simp add: db_CreateRepository_def)

lemma db_Create_exists:
  "db_fault srv (CreateRepositoryCall (Repository.Repo r)) = None \<Longrightarrow>
   map_of (repositories s) (Repository.Repo r) = Some existing \<Longrightarrow>
   db_CreateRepository srv r s =
     (Inl (StatusError AlreadyExists
             (''repository '' @ quoted (Repository.Repo r) @ '' already exists'')),
      called (CreateRepositoryCall (Repository.Repo r)) s)"
  by (simp add: db_CreateRepository_def)


lemma db_Create_Inr:
  "fst (db_CreateRepository srv r s) = Inr repo \<Longrightarrow>
   db_fault srv (CreateRepositoryCall (Repository.Repo r)) = None \<and>
   map_of (repositories s) (Repository.Repo r) = None"
  by (simp add: db_CreateRepository_def split: option.splits)

lemma db_Create_Inl:
  "fst (db_CreateRepository srv r s) = Inl err \<Longrightarrow>
   repositories (snd (db_CreateRepository srv r s)) = repositories s"
  by (simp add: db_CreateRepository_def split: option.splits)

lemma Create_new:
  assumes "enf_Enforce srv claims ResourceRepositories ActionCreate (Repository.Repo (RepoCreateRequest.Repo q))"
    and "connectionTest srv (RepoCreateRequest.Repo q) s = None"
    and "db_fault srv (CreateRepositoryCall (Repository.Repo (RepoCreateRequest.Repo q))) = None"
    and "map_of (repositories s) (Repository.Repo (RepoCreateRequest.Repo q)) = None"
  shows "CreateRepository srv claims q s =
     (Return (Some (Repository_of_URL (Repository.Repo (RepoCreateRequest.Repo q))), None),
      called (CreateRepositoryCall (Repository.Repo (RepoCreateRequest.Repo q)))
        ((snd (testedCredentials srv (RepoCreateRequest.Repo q) s))
           \<lparr>repositories := repositories s @
              [(Repository.Repo (RepoCreateRequest.Repo q), connected (RepoCreateRequest.Repo q))]\<rparr>))"
  using db_Create_new[of srv "connected (RepoCreateRequest.Repo q)"
      "snd (testedCredentials srv (RepoCreateRequest.Repo q) s)"] assms(3,4)
  by (simp add: Create_tested[OF assms(1,2)])

lemma Create_conflict_met:
  assumes "enf_Enforce srv claims ResourceRepositories ActionCreate (Repository.Repo (RepoCreateRequest.Repo q))"
    and "connectionTest srv (RepoCreateRequest.Repo q) s = None"
    and "db_fault srv (CreateRepositoryCall (Repository.Repo (RepoCreateRequest.Repo q))) = None"
    and "map_of (repositories s) (Repository.Repo (RepoCreateRequest.Repo q)) = Some existing"
  shows "CreateRepository srv claims q s =
     conflict srv claims q
       (called (CreateRepositoryCall (Repository.Repo (RepoCreateRequest.Repo q)))
          (snd (testedCredentials srv (RepoCreateRequest.Repo q) s)))"
  using db_Create_exists[of srv "connected (RepoCreateRequest.Repo q)"
      "snd (testedCredentials srv (RepoCreateRequest.Repo q) s)" existing] assms(3,4)
  by (simp add: Create_tested[OF assms(1,2)])

lemma conflict_read:
  assumes "db_fault srv (GetRepositoryCall (Repository.Repo (RepoCreateRequest.Repo q))) = None"
    and "map_of (repositories s2) (Repository.Repo (RepoCreateRequest.Repo q)) = Some existing"
  shows "conflict srv claims q s2 =
     (let s3 = called (GetRepositoryCall (Repository.Repo (RepoCreateRequest.Repo q))) s2
      in if connected existing = connected (RepoCreateRequest.Repo q) then
           (Return (Some (Repository_of_URL (Repository.Repo (RepoCreateRequest.Repo q))), None),
            s3)
         else if Upsert q then
           (Return (fst (UpdateRepository srv claims
                       \<lparr>RepoUpdateRequest.Repo = connected (RepoCreateRequest.Repo q)\<rparr> s3)),
            snd (UpdateRepository srv claims
                   \<lparr>RepoUpdateRequest.Repo = connected (RepoCreateRequest.Repo q)\<rparr> s3))
         else (Return (None, Some specDiffers), s3))"
  by (simp add: conflict_def db_GetRepository_stored[OF assms] Let_def)


lemma conflict_keeps:
  assumes "\<not> Upsert q"
  shows "repositories (snd (conflict srv claims q s)) = repositories s"
proof -
  let ?url = "Repository.Repo (RepoCreateRequest.Repo q)"
  obtain x where gs: "db_GetRepository srv ?url s = (x, called (GetRepositoryCall ?url) s)"
    using db_GetRepository_store[of srv ?url s] by (metis prod.collapse)
  show ?thesis
    using assms by (cases x) (simp_all add: conflict_def gs)
qed


lemma conflict_returns:
  "conflict srv claims q s = (Return (Some rec, err), s') \<Longrightarrow>
   rec = Repository_of_URL (Repository.Repo (RepoCreateRequest.Repo q))"
proof -
  let ?url = "Repository.Repo (RepoCreateRequest.Repo q)"
  let ?u = "\<lparr>RepoUpdateRequest.Repo = connected (RepoCreateRequest.Repo q)\<rparr>"
  assume a: "conflict srv claims q s = (Return (Some rec, err), s')"
  obtain x where gs: "db_GetRepository srv ?url s = (x, called (GetRepositoryCall ?url) s)"
    using db_GetRepository_store[of srv ?url s] by (metis prod.collapse)
  have upd: "fst (UpdateRepository srv claims ?u t) = (Some rec, err) \<Longrightarrow>
      rec = Repository_of_URL ?url" for t
    using Update_returns[of srv claims ?u t rec err "snd (UpdateRepository srv claims ?u t)"]
    by (metis connected_simps(1) prod.collapse RepoUpdateRequest.select_convs(1))
  from a show ?thesis
    by (cases x) (auto simp: conflict_def gs split: if_splits dest: upd)
qed




lemma Create_keeps:
  assumes "\<not> Upsert q" and "\<not> stores_new srv claims q s"
  shows "repositories (snd (CreateRepository srv claims q s)) = repositories s"
proof (cases "enf_Enforce srv claims ResourceRepositories ActionCreate
    (Repository.Repo (RepoCreateRequest.Repo q))")
  case False
  then show ?thesis by (simp add: Create_denied)
next
  case allowed: True
  let ?r = "RepoCreateRequest.Repo q"
  show ?thesis
  proof (cases "connectionTest srv ?r s")
    case (Some err)
    with allowed show ?thesis by (simp add: Create_unreachable)
  next
    case None
    let ?s1 = "snd (testedCredentials srv ?r s)"
    obtain created s2 where cs: "db_CreateRepository srv (connected ?r) ?s1 = (created, s2)"
      by (cases "db_CreateRepository srv (connected ?r) ?s1")
    show ?thesis
    proof (cases created)
      case (Inl err)
      with cs have "repositories s2 = repositories s"
        using db_Create_Inl[of srv "connected ?r" ?s1 err] by simp
      then show ?thesis
        using conflict_keeps[OF assms(1), of srv claims s2] Inl
        by (simp add: Create_tested[OF allowed None] cs)
    next
      case (Inr repo)
      with cs have "stores_new srv claims q s"
        using db_Create_Inr[of srv "connected ?r" ?s1 repo] allowed None
        by (simp add: stores_new_def)
      with assms(2) show ?thesis by simp
    qed
  qed
qed

lemma Create_returns:
  assumes "CreateRepository srv claims q s = (Return (Some rec, err), s')"
  shows "rec = Repository_of_URL (Repository.Repo (RepoCreateRequest.Repo q))"
proof (cases "enf_Enforce srv claims ResourceRepositories ActionCreate
    (Repository.Repo (RepoCreateRequest.Repo q))")
  case False
  with assms show ?thesis by (simp add: Create_denied)
next
  case allowed: True
  let ?r = "RepoCreateRequest.Repo q"
  show ?thesis
  proof (cases "connectionTest srv ?r s")
    case (Some e)
    with allowed assms show ?thesis by (simp add: Create_unreachable)
  next
    case None
    let ?s1 = "snd (testedCredentials srv ?r s)"
    obtain created s2 where cs: "db_CreateRepository srv (connected ?r) ?s1 = (created, s2)"
      by (cases "db_CreateRepository srv (connected ?r) ?s1")
    show ?thesis
    proof (cases created)
      case (Inl e)
      with assms show ?thesis
        by (auto simp: Create_tested[OF allowed None] cs split: if_splits
              dest: conflict_returns)
    next
      case (Inr repo)
      with cs have "repo = connected ?r"
        using db_CreateRepository_Inr[of srv "connected ?r" ?s1 repo] by simp
      with assms Inr show ?thesis
        by (simp add: Create_tested[OF allowed None] cs)
    qed
  qed
qed


lemma conflict_differs:
  assumes "\<not> Upsert q"
    and "map_of (repositories s) (Repository.Repo (RepoCreateRequest.Repo q)) = Some existing"
    and "connected existing \<noteq> connected (RepoCreateRequest.Repo q)"
  shows "fst (conflict srv claims q s) \<noteq> Return (Some rec, err)"
proof -
  let ?url = "Repository.Repo (RepoCreateRequest.Repo q)"
  obtain x where gs: "db_GetRepository srv ?url s = (x, called (GetRepositoryCall ?url) s)"
    using db_GetRepository_store[of srv ?url s] by (metis prod.collapse)
  show ?thesis
  proof (cases x)
    case (Inl e)
    then show ?thesis by (simp add: conflict_def gs)
  next
    case (Inr found)
    with gs have "map_of (repositories s) ?url = Some found"
      using db_GetRepository_Inr[of srv ?url s found] by simp
    with assms(2) have "found = existing" by simp
    with Inr assms(1,3) show ?thesis by (simp add: conflict_def gs)
  qed
qed


lemma Create_differs_no_record:
  assumes "\<not> Upsert q"
    and "map_of (repositories s) (Repository.Repo (RepoCreateRequest.Repo q)) = Some existing"
    and "connected existing \<noteq> connected (RepoCreateRequest.Repo q)"
  shows "fst (CreateRepository srv claims q s) \<noteq> Return (Some rec, err)"
proof (cases "enf_Enforce srv claims ResourceRepositories ActionCreate
    (Repository.Repo (RepoCreateRequest.Repo q))")
  case False
  then show ?thesis by (simp add: Create_denied)
next
  case allowed: True
  let ?r = "RepoCreateRequest.Repo q"
  show ?thesis
  proof (cases "connectionTest srv ?r s")
    case (Some e)
    with allowed show ?thesis by (simp add: Create_unreachable)
  next
    case None
    let ?s1 = "snd (testedCredentials srv ?r s)"
    obtain created s2 where cs: "db_CreateRepository srv (connected ?r) ?s1 = (created, s2)"
      by (cases "db_CreateRepository srv (connected ?r) ?s1")
    show ?thesis
    proof (cases created)
      case (Inl e)
      with cs have "repositories s2 = repositories s"
        using db_Create_Inl[of srv "connected ?r" ?s1 e] by simp
      with assms(2) have "map_of (repositories s2) (Repository.Repo ?r) = Some existing"
        by simp
      with assms(1) have "fst (conflict srv claims q s2) \<noteq> Return (Some rec, err)"
        using assms(3) by (rule conflict_differs)
      with Inl show ?thesis
        by (simp add: Create_tested[OF allowed None] cs)
    next
      case (Inr repo)
      with cs have "map_of (repositories s) (Repository.Repo ?r) = None"
        using db_Create_Inr[of srv "connected ?r" ?s1 repo] by simp
      with assms(2) show ?thesis by simp
    qed
  qed
qed


text \<open>
  Claim C5. Let \<open>upsert\<close> be false and let the storage hold for the URL of the request a
  record that differs from the record of the request beyond the connection state. Then
  \<open>CreateRepository\<close> returns no record and leaves the repository records as they are;
  and when the enforcer allows the create, the connection test passes and the storage
  has no fault of its own in the create and in the read of the record, the call returns
  the \<open>InvalidArgument\<close> error whose message names the upsert flag.
\<close>

theorem CreateRepository_conflict:
  assumes "\<not> Upsert q"
    and "map_of (repositories s) (Repository.Repo (RepoCreateRequest.Repo q)) = Some existing"
    and "connected existing \<noteq> connected (RepoCreateRequest.Repo q)"
  shows "repositories (snd (CreateRepository srv claims q s)) = repositories s \<and>
         (\<forall>rec err. fst (CreateRepository srv claims q s) \<noteq> Return (Some rec, err)) \<and>
         (enf_Enforce srv claims ResourceRepositories ActionCreate
              (Repository.Repo (RepoCreateRequest.Repo q)) \<and>
          connectionTest srv (RepoCreateRequest.Repo q) s = None \<and>
          db_fault srv (CreateRepositoryCall (Repository.Repo (RepoCreateRequest.Repo q))) = None \<and>
          db_fault srv (GetRepositoryCall (Repository.Repo (RepoCreateRequest.Repo q))) = None \<longrightarrow>
            fst (CreateRepository srv claims q s) =
              Return (None, Some (StatusError InvalidArgument
                ''existing repository spec is different; use upsert flag to force update'')))"
proof -
  let ?r = "RepoCreateRequest.Repo q"
  let ?url = "Repository.Repo ?r"
  have "\<not> stores_new srv claims q s"
    using assms(2) by (simp add: stores_new_def)
  with assms(1) have keeps: "repositories (snd (CreateRepository srv claims q s)) = repositories s"
    by (rule Create_keeps)
  have none: "fst (CreateRepository srv claims q s) \<noteq> Return (Some rec, err)" for rec err
    using assms by (rule Create_differs_no_record)
  have "fst (CreateRepository srv claims q s) = Return (None, Some specDiffers)"
    if allowed: "enf_Enforce srv claims ResourceRepositories ActionCreate ?url"
      and test: "connectionTest srv ?r s = None"
      and create: "db_fault srv (CreateRepositoryCall ?url) = None"
      and get: "db_fault srv (GetRepositoryCall ?url) = None"
  proof -
    let ?s2 = "called (CreateRepositoryCall ?url) (snd (testedCredentials srv ?r s))"
    have met: "CreateRepository srv claims q s = conflict srv claims q ?s2"
      using allowed test create assms(2) by (rule Create_conflict_met)
    have stored2: "map_of (repositories ?s2) ?url = Some existing"
      using assms(2) by simp
    show ?thesis
      unfolding met conflict_read[OF get stored2] using assms(1,3) by (simp add: Let_def)
  qed
  with keeps none show ?thesis by (simp add: specDiffers_def)
qed

text \<open>
  Claim C6. Let \<open>upsert\<close> be true, let the storage hold for the URL of the request a
  record that differs from the record of the request beyond the connection state, let
  the enforcer allow the create, let the connection test pass and let the storage have
  no fault of its own in the create and in the read of the record. Then
  \<open>CreateRepository\<close> returns what \<open>UpdateRepository\<close> returns for the record of the
  request, and leaves the repository records as \<open>UpdateRepository\<close> leaves them for that
  record with its connection state set to \<open>Successful\<close>, which is the record
  \<open>CreateRepository\<close> hands on; credential records and cache are untouched. When the
  enforcer allows the update as well and the storage has no fault in the update, the
  call succeeds and the URL is stored with the new record.
\<close>

theorem CreateRepository_upsert_is_update:
  assumes "Upsert q"
    and "map_of (repositories s) (Repository.Repo (RepoCreateRequest.Repo q)) = Some existing"
    and "connected existing \<noteq> connected (RepoCreateRequest.Repo q)"
    and "enf_Enforce srv claims ResourceRepositories ActionCreate
           (Repository.Repo (RepoCreateRequest.Repo q))"
    and "connectionTest srv (RepoCreateRequest.Repo q) s = None"
    and "db_fault srv (CreateRepositoryCall (Repository.Repo (RepoCreateRequest.Repo q))) = None"
    and "db_fault srv (GetRepositoryCall (Repository.Repo (RepoCreateRequest.Repo q))) = None"
  shows "fst (CreateRepository srv claims q s) =
           Return (fst (UpdateRepository srv claims
                          \<lparr>RepoUpdateRequest.Repo = RepoCreateRequest.Repo q\<rparr> s)) \<and>
         repositories (snd (CreateRepository srv claims q s)) =
           repositories (snd (UpdateRepository srv claims
              \<lparr>RepoUpdateRequest.Repo = connected (RepoCreateRequest.Repo q)\<rparr> s)) \<and>
         repositoryCredentials (snd (CreateRepository srv claims q s)) = repositoryCredentials s \<and>
         connectionStates (snd (CreateRepository srv claims q s)) = connectionStates s \<and>
         (enf_Enforce srv claims ResourceRepositories ActionUpdate
              (Repository.Repo (RepoCreateRequest.Repo q)) \<and>
          db_fault srv (UpdateRepositoryCall (Repository.Repo (RepoCreateRequest.Repo q))) = None \<longrightarrow>
            fst (CreateRepository srv claims q s) =
              Return (Some (Repository_of_URL (Repository.Repo (RepoCreateRequest.Repo q))), None) \<and>
            map_of (repositories (snd (CreateRepository srv claims q s)))
                (Repository.Repo (RepoCreateRequest.Repo q))
              = Some (connected (RepoCreateRequest.Repo q)))"
proof -
  let ?r = "RepoCreateRequest.Repo q"
  let ?url = "Repository.Repo ?r"
  let ?u = "\<lparr>RepoUpdateRequest.Repo = connected ?r\<rparr>"
  let ?s2 = "called (CreateRepositoryCall ?url) (snd (testedCredentials srv ?r s))"
  let ?s3 = "called (GetRepositoryCall ?url) ?s2"
  have met: "CreateRepository srv claims q s = conflict srv claims q ?s2"
    using assms(4,5,6,2) by (rule Create_conflict_met)
  have stored2: "map_of (repositories ?s2) ?url = Some existing"
    using assms(2) by simp
  have create: "CreateRepository srv claims q s =
      (Return (fst (UpdateRepository srv claims ?u ?s3)), snd (UpdateRepository srv claims ?u ?s3))"
    unfolding met conflict_read[OF assms(7) stored2] using assms(1,3) by (simp add: Let_def)
  have reps3: "repositories ?s3 = repositories s" by simp
  have res: "fst (UpdateRepository srv claims ?u ?s3)
      = fst (UpdateRepository srv claims \<lparr>RepoUpdateRequest.Repo = ?r\<rparr> s)"
    using reps3 by (intro Update_result) simp_all
  have reps: "repositories (snd (UpdateRepository srv claims ?u ?s3))
      = repositories (snd (UpdateRepository srv claims ?u s))"
    using reps3 by (rule Update_repositories)
  have other: "repositoryCredentials (snd (UpdateRepository srv claims ?u ?s3))
        = repositoryCredentials s"
      "connectionStates (snd (UpdateRepository srv claims ?u ?s3)) = connectionStates s"
    by simp_all
  have c1: "fst (CreateRepository srv claims q s) =
      Return (fst (UpdateRepository srv claims \<lparr>RepoUpdateRequest.Repo = ?r\<rparr> s))"
    unfolding create using res by simp
  have c2: "repositories (snd (CreateRepository srv claims q s)) =
      repositories (snd (UpdateRepository srv claims ?u s))"
    unfolding create using reps by simp
  have c3: "repositoryCredentials (snd (CreateRepository srv claims q s)) = repositoryCredentials s"
    unfolding create using other(1) by simp
  have c4: "connectionStates (snd (CreateRepository srv claims q s)) = connectionStates s"
    unfolding create using other(2) by simp
  have c5: "fst (CreateRepository srv claims q s) = Return (Some (Repository_of_URL ?url), None) \<and>
      map_of (repositories (snd (CreateRepository srv claims q s))) ?url = Some (connected ?r)"
    if allowed: "enf_Enforce srv claims ResourceRepositories ActionUpdate ?url"
      and update: "db_fault srv (UpdateRepositoryCall ?url) = None"
  proof -
    have u: "UpdateRepository srv claims ?u s =
        ((Some (Repository_of_URL ?url), None),
         called (UpdateRepositoryCall ?url)
           (s\<lparr>repositories := AList.update ?url (connected ?r) (repositories s)\<rparr>))"
      using Update_stored[of srv claims ?u s existing] allowed update assms(2) by simp
    have u0: "fst (UpdateRepository srv claims \<lparr>RepoUpdateRequest.Repo = ?r\<rparr> s)
        = (Some (Repository_of_URL ?url), None)"
      using Update_stored[of srv claims "\<lparr>RepoUpdateRequest.Repo = ?r\<rparr>" s existing]
        allowed update assms(2) by simp
    show ?thesis
      unfolding c1 c2 u u0 by (simp add: update_conv')
  qed
  from c1 c2 c3 c4 c5 show ?thesis by blast
qed

subsection \<open>Responses, authorization and the connection state\<close>

lemma Repository_of_URL_fields:
  "Repository.Repo (Repository_of_URL url) = url"
  "Username (Repository_of_URL url) = []"
  "Password (Repository_of_URL url) = []"
  "SSHPrivateKey (Repository_of_URL url) = []"
  "TLSClientCertData (Repository_of_URL url) = []"
  "TLSClientCertKey (Repository_of_URL url) = []"
  "Insecure (Repository_of_URL url) = False"
  "EnableLFS (Repository_of_URL url) = False"
  "ConnectionState (Repository_of_URL url) = \<lparr>Status = [], Message = [], ModifiedAt = None\<rparr>"
  by (simp_all add: Repository_of_URL_def)

lemma db_CreateRepositoryCredentials_Inr:
  "fst (db_CreateRepositoryCredentials srv r s) = Inr repo \<Longrightarrow> repo = r"
  by (simp add: db_CreateRepositoryCredentials_def split: option.splits)

lemma CreateCredentials_returns:
  assumes "CreateRepositoryCredentials srv claims q s = (Return (Some rec, err), s')"
  shows "rec = Repository_of_URL (Repository.Repo (RepoCreateRequest.Repo q))"
proof (cases "enf_Enforce srv claims ResourceRepositories ActionCreate
    (Repository.Repo (RepoCreateRequest.Repo q))")
  case False
  with assms show ?thesis by (simp add: CreateRepositoryCredentials_def)
next
  case allowed: True
  let ?r = "RepoCreateRequest.Repo q"
  let ?u = "\<lparr>RepoUpdateRequest.Repo = ?r\<rparr>"
  obtain created s1 where cs: "db_CreateRepositoryCredentials srv ?r s = (created, s1)"
    by (cases "db_CreateRepositoryCredentials srv ?r s")
  have upd: "rec = Repository_of_URL (Repository.Repo ?r)"
    if "fst (UpdateRepositoryCredentials srv claims ?u t) = (Some rec, err)" for t
    using UpdateCredentials_returns[of srv claims ?u t rec err
        "snd (UpdateRepositoryCredentials srv claims ?u t)"] that
    by (metis prod.collapse RepoUpdateRequest.select_convs(1))
  show ?thesis
  proof (cases created)
    case (Inr repo)
    with cs have "repo = ?r"
      using db_CreateRepositoryCredentials_Inr[of srv ?r s repo] by simp
    with assms allowed Inr show ?thesis
      by (simp add: CreateRepositoryCredentials_def cs Let_def)
  next
    case (Inl e)
    obtain x s2 where gs: "db_GetRepositoryCredentials srv (Repository.Repo ?r) s1 = (x, s2)"
      by (cases "db_GetRepositoryCredentials srv (Repository.Repo ?r) s1")
    obtain res s3 where us: "UpdateRepositoryCredentials srv claims ?u s2 = (res, s3)"
      by (cases "UpdateRepositoryCredentials srv claims ?u s2")
    from assms allowed Inl show ?thesis
      using upd[of s2]
      by (auto simp: CreateRepositoryCredentials_def cs gs us Let_def
            split: if_splits sum.splits option.splits)
  qed
qed

text \<open>
  Claim C10. When \<open>CreateRepository\<close>, \<open>CreateRepositoryCredentials\<close>, \<open>UpdateRepository\<close> or
  \<open>UpdateRepositoryCredentials\<close> returns a record and no error, the record is the record
  of the URL of the request and nothing else: user name, password, SSH key, TLS
  certificate and key are empty, the flags are unset and the connection state is zero,
  whatever the request and the storage hold.
\<close>

theorem responses_hold_only_the_URL:
  "(CreateRepository srv claims c s = (Return (Some rec, None), s') \<or>
    CreateRepositoryCredentials srv claims c s = (Return (Some rec, None), s')
      \<longrightarrow> rec = Repository_of_URL (Repository.Repo (RepoCreateRequest.Repo c))) \<and>
   (UpdateRepository srv claims u s = ((Some rec, None), s') \<or>
    UpdateRepositoryCredentials srv claims u s = ((Some rec, None), s')
      \<longrightarrow> rec = Repository_of_URL (Repository.Repo (RepoUpdateRequest.Repo u))) \<and>
   Username (Repository_of_URL url) = [] \<and> Password (Repository_of_URL url) = [] \<and>
   SSHPrivateKey (Repository_of_URL url) = [] \<and>
   TLSClientCertData (Repository_of_URL url) = [] \<and>
   TLSClientCertKey (Repository_of_URL url) = [] \<and>
   Insecure (Repository_of_URL url) = False \<and> EnableLFS (Repository_of_URL url) = False \<and>
   ConnectionState (Repository_of_URL url) = \<lparr>Status = [], Message = [], ModifiedAt = None\<rparr>"
  using Create_returns[of srv claims c s rec None s']
    CreateCredentials_returns[of srv claims c s rec None s']
    Update_returns[of srv claims u s rec None s']
    UpdateCredentials_returns[of srv claims u s rec None s']
  by (auto simp: Repository_of_URL_fields)

text \<open>The loop of \<open>ListRepositories\<close> over the URLs of the storage.\<close>

lemma listItems_URLs:
  "listItems srv claims urls items s = (Inr found, s') \<Longrightarrow>
   map Repository.Repo found = map Repository.Repo items @ listed srv claims urls"
proof (induction urls arbitrary: items s)
  case Nil
  then show ?case by (simp add: listed_def)
next
  case (Cons url urls)
  show ?case
  proof (cases "enf_Enforce srv claims ResourceRepositories ActionGet url")
    case False
    with Cons.IH[of items s] Cons.prems show ?thesis by (simp add: listed_def)
  next
    case True
    obtain x s1 where gs: "db_GetRepository srv url s = (x, s1)"
      by (cases "db_GetRepository srv url s")
    show ?thesis
    proof (cases x)
      case (Inl e)
      with Cons.prems True gs show ?thesis by simp
    next
      case (Inr repo)
      let ?item = "(Repository_of_URL url)
          \<lparr>Username := Username repo, Insecure := Repository_IsInsecure srv repo,
           EnableLFS := EnableLFS repo\<rparr>"
      from Cons.prems True gs Inr
      have "listItems srv claims urls (items @ [?item]) s1 = (Inr found, s')" by simp
      from Cons.IH[OF this] True show ?thesis
        by (simp add: listed_def Repository_of_URL_def)
    qed
  qed
qed

lemma listItems_returns:
  assumes "\<forall>url\<in>set (listed srv claims urls).
             db_fault srv (GetRepositoryCall url) = None \<and> map_of (repositories s) url \<noteq> None"
  shows "\<exists>found s'. listItems srv claims urls items s = (Inr found, s')"
  using assms
proof (induction urls arbitrary: items s)
  case Nil
  show ?case by simp
next
  case (Cons url urls)
  show ?case
  proof (cases "enf_Enforce srv claims ResourceRepositories ActionGet url")
    case False
    with Cons.prems have "\<forall>url\<in>set (listed srv claims urls).
        db_fault srv (GetRepositoryCall url) = None \<and> map_of (repositories s) url \<noteq> None"
      by (simp add: listed_def)
    from Cons.IH[OF this, of items] False show ?thesis by simp
  next
    case True
    with Cons.prems have here: "db_fault srv (GetRepositoryCall url) = None"
        "map_of (repositories s) url \<noteq> None"
      and rest: "\<forall>url\<in>set (listed srv claims urls).
        db_fault srv (GetRepositoryCall url) = None \<and> map_of (repositories s) url \<noteq> None"
      by (simp_all add: listed_def)
    from here(2) obtain repo where repo: "map_of (repositories s) url = Some repo" by blast
    let ?s1 = "called (GetRepositoryCall url) s"
    let ?item = "(Repository_of_URL url)
        \<lparr>Username := Username repo, Insecure := Repository_IsInsecure srv repo,
         EnableLFS := EnableLFS repo\<rparr>"
    have step: "listItems srv claims (url # urls) items s =
        listItems srv claims urls (items @ [?item]) ?s1"
      using True db_GetRepository_stored[OF here(1) repo] by simp
    from rest have "\<forall>url\<in>set (listed srv claims urls).
        db_fault srv (GetRepositoryCall url) = None \<and> map_of (repositories ?s1) url \<noteq> None"
      by simp
    from Cons.IH[OF this, of "items @ [?item]"] step show ?thesis by simp
  qed
qed

lemma probeItems_URLs:
  "map Repository.Repo (fst (probeItems srv forceRefresh items s)) = map Repository.Repo items"
proof (induction items arbitrary: s)
  case Nil
  show ?case by simp
next
  case (Cons item items)
  obtain connectionState s1 where
    g: "getConnectionState srv (Repository.Repo item) forceRefresh s = (connectionState, s1)"
    by (cases "getConnectionState srv (Repository.Repo item) forceRefresh s")
  obtain probed s2 where p: "probeItems srv forceRefresh items s1 = (probed, s2)"
    by (cases "probeItems srv forceRefresh items s1")
  from Cons.IH[of s1] p have "map Repository.Repo probed = map Repository.Repo items" by simp
  then show ?case by (simp add: g p)
qed

lemma ListRepositories_filters:
  assumes "ListRepositories srv claims q s = ((Some lst, err), s')"
  shows "map Repository.Repo (Items lst) = listed srv claims (map fst (repositories s))"
proof -
  obtain x s1 where ls: "db_ListRepoURLs srv s = (x, s1)"
    by (cases "db_ListRepoURLs srv s")
  show ?thesis
  proof (cases x)
    case (Inl e)
    with assms ls show ?thesis by (simp add: ListRepositories_def)
  next
    case (Inr urls)
    with ls have urls: "urls = map fst (repositories s)"
      by (simp add: db_ListRepoURLs_def split: option.splits)
    obtain y s2 where li: "listItems srv claims urls [] s1 = (y, s2)"
      by (cases "listItems srv claims urls [] s1")
    show ?thesis
    proof (cases y)
      case (Inl e)
      with assms ls Inr li show ?thesis by (simp add: ListRepositories_def)
    next
      case found: (Inr found)
      obtain probed s3 where p: "probeItems srv (ForceRefresh q) found s2 = (probed, s3)"
        by (cases "probeItems srv (ForceRefresh q) found s2")
      have "map Repository.Repo probed = map Repository.Repo found"
        using probeItems_URLs[of srv "ForceRefresh q" found s2] p by simp
      moreover have "map Repository.Repo found = listed srv claims urls"
        using listItems_URLs[of srv claims urls "[]" s1 found s2] li found by simp
      moreover have "lst = \<lparr>Items = probed\<rparr>"
        using assms ls Inr li found p by (simp add: ListRepositories_def)
      ultimately show ?thesis using urls by simp
    qed
  qed
qed

lemma ListRepositories_returns:
  assumes "db_fault srv ListRepoURLsCall = None"
    and "\<forall>url\<in>set (listed srv claims (map fst (repositories s))).
           db_fault srv (GetRepositoryCall url) = None"
  shows "\<exists>found s'. ListRepositories srv claims q s = ((Some \<lparr>Items = found\<rparr>, None), s')"
proof -
  let ?urls = "map fst (repositories s)"
  let ?s1 = "called ListRepoURLsCall s"
  have ls: "db_ListRepoURLs srv s = (Inr ?urls, ?s1)"
    using assms(1) by (simp add: db_ListRepoURLs_def)
  have "\<forall>url\<in>set (listed srv claims ?urls).
      db_fault srv (GetRepositoryCall url) = None \<and> map_of (repositories ?s1) url \<noteq> None"
  proof
    fix url
    assume a: "url \<in> set (listed srv claims ?urls)"
    then have "url \<in> fst ` set (repositories s)" by (auto simp: listed_def)
    then have "map_of (repositories s) url \<noteq> None" by (simp add: map_of_eq_None_iff)
    with assms(2) a show "db_fault srv (GetRepositoryCall url) = None \<and>
        map_of (repositories ?s1) url \<noteq> None"
      by simp
  qed
  from listItems_returns[OF this, of "[]"] obtain found s2 where
    li: "listItems srv claims ?urls [] ?s1 = (Inr found, s2)" by blast
  obtain probed s3 where p: "probeItems srv (ForceRefresh q) found s2 = (probed, s3)"
    by (cases "probeItems srv (ForceRefresh q) found s2")
  show ?thesis
    by (simp add: ListRepositories_def ls li p)
qed

text \<open>
  Claim C9. When the enforcer denies the action, each of \<open>CreateRepository\<close>,
  \<open>UpdateRepository\<close>, \<open>DeleteRepository\<close> and their analogues for credentials returns a
  permission error and leaves the state as it was: no call to the storage has been
  recorded, the cache is as before. \<open>ListRepositories\<close> does not fail for a URL that
  the subject may not get: whenever it returns a list, the list holds the records of the
  URLs the subject may get, in the order of the storage, and no others; and it returns a
  list whenever the storage has no fault of its own in the listing of the URLs and in
  the reads of the records that the subject may get.
\<close>

theorem denial_fails_mutations_and_filters_the_list:
  "(\<not> enf_Enforce srv claims ResourceRepositories ActionCreate
        (Repository.Repo (RepoCreateRequest.Repo c)) \<longrightarrow>
      CreateRepository srv claims c s =
        (Return (None, Some (StatusError PermissionDenied ''permission denied'')), s) \<and>
      CreateRepositoryCredentials srv claims c s =
        (Return (None, Some (StatusError PermissionDenied ''permission denied'')), s)) \<and>
   (\<not> enf_Enforce srv claims ResourceRepositories ActionUpdate
        (Repository.Repo (RepoUpdateRequest.Repo u)) \<longrightarrow>
      UpdateRepository srv claims u s =
        ((None, Some (StatusError PermissionDenied ''permission denied'')), s) \<and>
      UpdateRepositoryCredentials srv claims u s =
        ((None, Some (StatusError PermissionDenied ''permission denied'')), s)) \<and>
   (\<not> enf_Enforce srv claims ResourceRepositories ActionDelete (RepoQuery.Repo d) \<longrightarrow>
      DeleteRepository srv claims d s =
        ((None, Some (StatusError PermissionDenied ''permission denied'')), s) \<and>
      DeleteRepositoryCredentials srv claims d s =
        ((None, Some (StatusError PermissionDenied ''permission denied'')), s)) \<and>
   (\<forall>lst err s'. ListRepositories srv claims q s = ((Some lst, err), s') \<longrightarrow>
      map Repository.Repo (Items lst) =
        filter (\<lambda>url. enf_Enforce srv claims ResourceRepositories ActionGet url)
          (map fst (repositories s))) \<and>
   (db_fault srv ListRepoURLsCall = None \<and>
    (\<forall>url\<in>set (map fst (repositories s)).
       enf_Enforce srv claims ResourceRepositories ActionGet url \<longrightarrow>
       db_fault srv (GetRepositoryCall url) = None) \<longrightarrow>
      (\<exists>found s'. ListRepositories srv claims q s = ((Some \<lparr>Items = found\<rparr>, None), s')))"
proof -
  have denied: "(\<not> enf_Enforce srv claims ResourceRepositories ActionCreate
        (Repository.Repo (RepoCreateRequest.Repo c)) \<longrightarrow>
      CreateRepository srv claims c s =
        (Return (None, Some (StatusError PermissionDenied ''permission denied'')), s) \<and>
      CreateRepositoryCredentials srv claims c s =
        (Return (None, Some (StatusError PermissionDenied ''permission denied'')), s)) \<and>
   (\<not> enf_Enforce srv claims ResourceRepositories ActionUpdate
        (Repository.Repo (RepoUpdateRequest.Repo u)) \<longrightarrow>
      UpdateRepository srv claims u s =
        ((None, Some (StatusError PermissionDenied ''permission denied'')), s) \<and>
      UpdateRepositoryCredentials srv claims u s =
        ((None, Some (StatusError PermissionDenied ''permission denied'')), s)) \<and>
   (\<not> enf_Enforce srv claims ResourceRepositories ActionDelete (RepoQuery.Repo d) \<longrightarrow>
      DeleteRepository srv claims d s =
        ((None, Some (StatusError PermissionDenied ''permission denied'')), s) \<and>
      DeleteRepositoryCredentials srv claims d s =
        ((None, Some (StatusError PermissionDenied ''permission denied'')), s))"
    by (simp add: CreateRepository_def CreateRepositoryCredentials_def UpdateRepository_def
        UpdateRepositoryCredentials_def DeleteRepository_def DeleteRepositoryCredentials_def
        permissionDenied_def)
  have filters: "map Repository.Repo (Items lst) =
        filter (\<lambda>url. enf_Enforce srv claims ResourceRepositories ActionGet url)
          (map fst (repositories s))"
    if "ListRepositories srv claims q s = ((Some lst, err), s')" for lst err s'
    using ListRepositories_filters[OF that] by (simp add: listed_def)
  have returns: "\<exists>found s'. ListRepositories srv claims q s = ((Some \<lparr>Items = found\<rparr>, None), s')"
    if "db_fault srv ListRepoURLsCall = None"
      and "\<forall>url\<in>set (map fst (repositories s)).
             enf_Enforce srv claims ResourceRepositories ActionGet url \<longrightarrow>
             db_fault srv (GetRepositoryCall url) = None"
  proof (rule ListRepositories_returns[OF that(1)])
    show "\<forall>url\<in>set (listed srv claims (map fst (repositories s))).
        db_fault srv (GetRepositoryCall url) = None"
      using that(2) by (auto simp: listed_def)
  qed
  from denied filters returns show ?thesis by blast
qed

text \<open>\<open>getConnectionState\<close> when it does not answer from the cache.\<close>

lemma getConnectionState_probes:
  assumes "forceRefresh \<or> isl (cache_GetRepoConnectionState srv url s)"
  shows "fst (getConnectionState srv url forceRefresh s) =
     (case fst (db_GetRepository srv url s) of
        Inl err \<Rightarrow>
          \<lparr>Status = ConnectionStatusFailed,
           Message = ''Unable to connect to repository: '' @ Error err,
           ModifiedAt = Some (metav1_Now srv)\<rparr>
      | Inr repo \<Rightarrow>
          (case git_TestRepo srv (Repository.Repo repo) (argo_GetRepoCreds srv (Some repo))
                  (Repository_IsInsecure srv repo) (EnableLFS repo) of
             Some err \<Rightarrow>
               \<lparr>Status = ConnectionStatusFailed,
                Message = ''Unable to connect to repository: '' @ Error err,
                ModifiedAt = Some (metav1_Now srv)\<rparr>
           | None \<Rightarrow>
               \<lparr>Status = ConnectionStatusSuccessful, Message = [],
                ModifiedAt = Some (metav1_Now srv)\<rparr>))"
proof -
  obtain x s1 where gs: "db_GetRepository srv url s = (x, s1)"
    by (cases "db_GetRepository srv url s")
  have set: "\<exists>setErr s2. cache_SetRepoConnectionState srv url state s1 = (setErr, s2)" for state
    by (cases "cache_SetRepoConnectionState srv url state s1") simp
  show ?thesis
  proof (cases forceRefresh)
    case True
    then show ?thesis
      by (simp add: getConnectionState_def gs Let_def split: sum.splits option.splits prod.splits)
  next
    case False
    with assms obtain e where "cache_GetRepoConnectionState srv url s = Inl e"
      by (cases "cache_GetRepoConnectionState srv url s") simp_all
    with False show ?thesis
      by (simp add: getConnectionState_def gs Let_def split: sum.splits option.splits prod.splits)
  qed
qed

text \<open>
  Claim C7, amended. When \<open>getConnectionState\<close> does not answer from the cache, an error
  of the lookup of the repository and an error of the connection test are both captured
  in the state it returns, as \<open>Failed\<close> with the diagnostic and the time of the probe;
  without an error the state is \<open>Successful\<close>. The function returns a connection state
  and has no error to return.
\<close>

theorem getConnectionState_captures_every_error:
  assumes "forceRefresh \<or> isl (cache_GetRepoConnectionState srv url s)"
  shows "(\<forall>err. fst (db_GetRepository srv url s) = Inl err \<longrightarrow>
            fst (getConnectionState srv url forceRefresh s) =
              \<lparr>Status = ConnectionStatusFailed,
               Message = ''Unable to connect to repository: '' @ Error err,
               ModifiedAt = Some (metav1_Now srv)\<rparr>) \<and>
         (\<forall>repo err. fst (db_GetRepository srv url s) = Inr repo \<and>
            git_TestRepo srv (Repository.Repo repo) (argo_GetRepoCreds srv (Some repo))
              (Repository_IsInsecure srv repo) (EnableLFS repo) = Some err \<longrightarrow>
            fst (getConnectionState srv url forceRefresh s) =
              \<lparr>Status = ConnectionStatusFailed,
               Message = ''Unable to connect to repository: '' @ Error err,
               ModifiedAt = Some (metav1_Now srv)\<rparr>) \<and>
         (\<forall>repo. fst (db_GetRepository srv url s) = Inr repo \<and>
            git_TestRepo srv (Repository.Repo repo) (argo_GetRepoCreds srv (Some repo))
              (Repository_IsInsecure srv repo) (EnableLFS repo) = None \<longrightarrow>
            fst (getConnectionState srv url forceRefresh s) =
              \<lparr>Status = ConnectionStatusSuccessful, Message = [],
               ModifiedAt = Some (metav1_Now srv)\<rparr>)"
  unfolding getConnectionState_probes[OF assms]
  by simp

subsection \<open>The properties on the example\<close>

lemma example_URLs [simp]:
  "Repository.Repo aliceRepo = ''git@x/y''" "Repository.Repo bobRepo = ''git@x/y''"
  by (simp_all add: aliceRepo_def bobRepo_def Repository_of_URL_def)

lemma example_admin [simp]:
  "enf_Enforce exampleServer ''admin'' ResourceRepositories action object"
  by (simp add: exampleServer_def ResourceRepositories_def)

lemma example_guest [simp]:
  "\<not> enf_Enforce exampleServer ''guest'' resource action object"
  by (simp add: exampleServer_def)

lemma example_faults [simp]:
  "db_fault exampleServer c = None"
  "cache_GetRepoConnectionState_fault exampleServer url = None"
  "cache_SetRepoConnectionState_fault exampleServer url = None"
  by (simp_all add: exampleServer_def)

lemma example_test [simp]:
  "connectionTest exampleServer aliceRepo s = None"
  "connectionTest exampleServer bobRepo s = None"
  by (simp_all add: connectionTest_def testedCredentials_def exampleServer_def
        aliceRepo_def bobRepo_def Repository_of_URL_def)

lemma example_differs: "connected (connected aliceRepo) \<noteq> connected bobRepo"
proof
  assume "connected (connected aliceRepo) = connected bobRepo"
  then have "Username (connected aliceRepo) = Username (connected bobRepo)" by simp
  then show False by (simp add: connected_def aliceRepo_def bobRepo_def)
qed

lemma aliceStore_stored [simp]:
  "map_of (repositories aliceStore) ''git@x/y'' = Some (connected aliceRepo)"
  "map_of (repositories emptyStore) url = None"
  by (simp_all add: aliceStore_def emptyStore_def)


theorem CreateRepository_conflict_witness:
  "\<not> Upsert \<lparr>RepoCreateRequest.Repo = bobRepo, Upsert = False\<rparr> \<and>
   map_of (repositories aliceStore) (Repository.Repo bobRepo) = Some (connected aliceRepo) \<and>
   connected (connected aliceRepo) \<noteq> connected bobRepo \<and>
   enf_Enforce exampleServer ''admin'' ResourceRepositories ActionCreate (Repository.Repo bobRepo) \<and>
   connectionTest exampleServer bobRepo aliceStore = None \<and>
   db_fault exampleServer (CreateRepositoryCall (Repository.Repo bobRepo)) = None \<and>
   db_fault exampleServer (GetRepositoryCall (Repository.Repo bobRepo)) = None \<and>
   fst (CreateRepository exampleServer ''admin''
          \<lparr>RepoCreateRequest.Repo = bobRepo, Upsert = False\<rparr> aliceStore)
     = Return (None, Some (StatusError InvalidArgument
         ''existing repository spec is different; use upsert flag to force update'')) \<and>
   repositories (snd (CreateRepository exampleServer ''admin''
          \<lparr>RepoCreateRequest.Repo = bobRepo, Upsert = False\<rparr> aliceStore))
     = repositories aliceStore"
  using CreateRepository_conflict[where q = "\<lparr>RepoCreateRequest.Repo = bobRepo, Upsert = False\<rparr>"
      and s = aliceStore and existing = "connected aliceRepo" and srv = exampleServer
      and claims = "''admin''"] example_differs
  by simp

theorem CreateRepository_upsert_is_update_witness:
  "Upsert \<lparr>RepoCreateRequest.Repo = bobRepo, Upsert = True\<rparr> \<and>
   map_of (repositories aliceStore) (Repository.Repo bobRepo) = Some (connected aliceRepo) \<and>
   connected (connected aliceRepo) \<noteq> connected bobRepo \<and>
   enf_Enforce exampleServer ''admin'' ResourceRepositories ActionCreate (Repository.Repo bobRepo) \<and>
   enf_Enforce exampleServer ''admin'' ResourceRepositories ActionUpdate (Repository.Repo bobRepo) \<and>
   connectionTest exampleServer bobRepo aliceStore = None \<and>
   db_fault exampleServer (CreateRepositoryCall (Repository.Repo bobRepo)) = None \<and>
   db_fault exampleServer (GetRepositoryCall (Repository.Repo bobRepo)) = None \<and>
   db_fault exampleServer (UpdateRepositoryCall (Repository.Repo bobRepo)) = None \<and>
   fst (CreateRepository exampleServer ''admin''
          \<lparr>RepoCreateRequest.Repo = bobRepo, Upsert = True\<rparr> aliceStore)
     = Return (fst (UpdateRepository exampleServer ''admin''
                      \<lparr>RepoUpdateRequest.Repo = bobRepo\<rparr> aliceStore)) \<and>
   fst (CreateRepository exampleServer ''admin''
          \<lparr>RepoCreateRequest.Repo = bobRepo, Upsert = True\<rparr> aliceStore)
     = Return (Some (Repository_of_URL ''git@x/y''), None) \<and>
   map_of (repositories (snd (CreateRepository exampleServer ''admin''
          \<lparr>RepoCreateRequest.Repo = bobRepo, Upsert = True\<rparr> aliceStore))) ''git@x/y''
     = Some (connected bobRepo)"
proof -
  let ?q = "\<lparr>RepoCreateRequest.Repo = bobRepo, Upsert = True\<rparr>"
  have p1: "Upsert ?q" by simp
  have p2: "map_of (repositories aliceStore) (Repository.Repo (RepoCreateRequest.Repo ?q))
      = Some (connected aliceRepo)" by simp
  have p3: "connected (connected aliceRepo) \<noteq> connected (RepoCreateRequest.Repo ?q)"
    using example_differs by simp
  have p4: "enf_Enforce exampleServer ''admin'' ResourceRepositories ActionCreate
      (Repository.Repo (RepoCreateRequest.Repo ?q))" by simp
  have p5: "connectionTest exampleServer (RepoCreateRequest.Repo ?q) aliceStore = None"
    by simp
  have p6: "enf_Enforce exampleServer ''admin'' ResourceRepositories ActionUpdate
      (Repository.Repo bobRepo)" by simp
  have p7: "db_fault exampleServer
      (CreateRepositoryCall (Repository.Repo (RepoCreateRequest.Repo ?q))) = None" by simp
  have p8: "db_fault exampleServer
      (GetRepositoryCall (Repository.Repo (RepoCreateRequest.Repo ?q))) = None" by simp
  note all = CreateRepository_upsert_is_update[OF p1 p2 p3 p4 p5 p7 p8, simplified]
  from all have c1: "fst (CreateRepository exampleServer ''admin'' ?q aliceStore)
     = Return (fst (UpdateRepository exampleServer ''admin''
                      \<lparr>RepoUpdateRequest.Repo = bobRepo\<rparr> aliceStore))"
    by blast
  from all have c2: "fst (CreateRepository exampleServer ''admin'' ?q aliceStore)
     = Return (Some (Repository_of_URL ''git@x/y''), None)"
    and c3: "map_of (repositories (snd (CreateRepository exampleServer ''admin'' ?q aliceStore)))
       ''git@x/y'' = Some (connected bobRepo)"
    by blast+
  from p2 have p2': "map_of (repositories aliceStore) (Repository.Repo bobRepo)
      = Some (connected aliceRepo)" by simp
  from p4 have p4': "enf_Enforce exampleServer ''admin'' ResourceRepositories ActionCreate
      (Repository.Repo bobRepo)" by simp
  have p5': "connectionTest exampleServer bobRepo aliceStore = None" by simp
  have f1: "db_fault exampleServer (CreateRepositoryCall (Repository.Repo bobRepo)) = None"
    and f2: "db_fault exampleServer (GetRepositoryCall (Repository.Repo bobRepo)) = None"
    and f3: "db_fault exampleServer (UpdateRepositoryCall (Repository.Repo bobRepo)) = None"
    by simp_all
  show ?thesis
    by (intro conjI) (fact p1 p2' example_differs p4' p6 p5' f1 f2 f3 c1 c2 c3)+
qed

lemma example_unknown:
  "fst (getConnectionState exampleServer ''git@unknown/repo'' True emptyStore) =
     \<lparr>Status = ''Failed'',
      Message = ''Unable to connect to repository: rpc error: code = NotFound desc = repo ''
        @ quoted ''git@unknown/repo'' @ '' not found'',
      ModifiedAt = Some 1000\<rparr>"
  by (simp add: getConnectionState_probes db_GetRepository_def emptyStore_def
        ConnectionStatusFailed_def exampleServer_def)

text \<open>
  Claim C7 as stated says that an error of the lookup is propagated instead of captured.
  For a URL that is not stored the lookup fails with \<open>NotFound\<close>, and
  \<open>getConnectionState\<close> returns the state \<open>Failed\<close> with that error in its message.
\<close>

theorem getConnectionState_lookup_error_counterexample:
  "map_of (repositories emptyStore) ''git@unknown/repo'' = None \<and>
   fst (db_GetRepository exampleServer ''git@unknown/repo'' emptyStore) =
     Inl (StatusError NotFound (''repo '' @ quoted ''git@unknown/repo'' @ '' not found'')) \<and>
   fst (getConnectionState exampleServer ''git@unknown/repo'' True emptyStore) =
     \<lparr>Status = ''Failed'',
      Message = ''Unable to connect to repository: rpc error: code = NotFound desc = repo ''
        @ quoted ''git@unknown/repo'' @ '' not found'',
      ModifiedAt = Some 1000\<rparr>"
  using example_unknown by (simp add: db_GetRepository_def)

theorem getConnectionState_captures_every_error_witness:
  "isl (cache_GetRepoConnectionState exampleServer ''git@unknown/repo'' emptyStore) \<and>
   fst (db_GetRepository exampleServer ''git@unknown/repo'' emptyStore) =
     Inl (StatusError NotFound (''repo '' @ quoted ''git@unknown/repo'' @ '' not found'')) \<and>
   fst (getConnectionState exampleServer ''git@unknown/repo'' False emptyStore) =
     \<lparr>Status = ConnectionStatusFailed,
      Message = ''Unable to connect to repository: ''
        @ Error (StatusError NotFound (''repo '' @ quoted ''git@unknown/repo'' @ '' not found'')),
      ModifiedAt = Some (metav1_Now exampleServer)\<rparr> \<and>
   fst (db_GetRepository exampleServer ''git@down/z'' aliceStore)
     = Inr (Repository_of_URL ''git@down/z'') \<and>
   git_TestRepo exampleServer ''git@down/z''
     (argo_GetRepoCreds exampleServer (Some (Repository_of_URL ''git@down/z'')))
     (Repository_IsInsecure exampleServer (Repository_of_URL ''git@down/z''))
     (EnableLFS (Repository_of_URL ''git@down/z'')) = Some (PlainError ''connection refused'') \<and>
   fst (getConnectionState exampleServer ''git@down/z'' True aliceStore) =
     \<lparr>Status = ConnectionStatusFailed,
      Message = ''Unable to connect to repository: '' @ Error (PlainError ''connection refused''),
      ModifiedAt = Some (metav1_Now exampleServer)\<rparr>"
proof -
  have miss': "isl (cache_GetRepoConnectionState exampleServer ''git@unknown/repo'' emptyStore)"
    by (simp add: cache_GetRepoConnectionState_def emptyStore_def)
  then have miss: "False \<or>
      isl (cache_GetRepoConnectionState exampleServer ''git@unknown/repo'' emptyStore)"
    by simp
  have lookup: "fst (db_GetRepository exampleServer ''git@unknown/repo'' emptyStore) =
     Inl (StatusError NotFound (''repo '' @ quoted ''git@unknown/repo'' @ '' not found''))"
    by (simp add: db_GetRepository_def)
  have found: "fst (db_GetRepository exampleServer ''git@down/z'' aliceStore)
      = Inr (Repository_of_URL ''git@down/z'')"
    by (simp add: db_GetRepository_def aliceStore_def emptyStore_def)
  have down: "git_TestRepo exampleServer (Repository.Repo (Repository_of_URL ''git@down/z''))
     (argo_GetRepoCreds exampleServer (Some (Repository_of_URL ''git@down/z'')))
     (Repository_IsInsecure exampleServer (Repository_of_URL ''git@down/z''))
     (EnableLFS (Repository_of_URL ''git@down/z'')) = Some (PlainError ''connection refused'')"
    by (simp add: exampleServer_def Repository_of_URL_def)
  have forced: "True \<or> isl (cache_GetRepoConnectionState exampleServer ''git@down/z'' aliceStore)"
    by simp
  from getConnectionState_captures_every_error[OF miss] lookup
  have a: "fst (getConnectionState exampleServer ''git@unknown/repo'' False emptyStore) =
     \<lparr>Status = ConnectionStatusFailed,
      Message = ''Unable to connect to repository: ''
        @ Error (StatusError NotFound (''repo '' @ quoted ''git@unknown/repo'' @ '' not found'')),
      ModifiedAt = Some (metav1_Now exampleServer)\<rparr>"
    by blast
  from getConnectionState_captures_every_error[OF forced] found down
  have b: "fst (getConnectionState exampleServer ''git@down/z'' True aliceStore) =
     \<lparr>Status = ConnectionStatusFailed,
      Message = ''Unable to connect to repository: '' @ Error (PlainError ''connection refused''),
      ModifiedAt = Some (metav1_Now exampleServer)\<rparr>"
    by blast
  have down': "git_TestRepo exampleServer ''git@down/z''
     (argo_GetRepoCreds exampleServer (Some (Repository_of_URL ''git@down/z'')))
     (Repository_IsInsecure exampleServer (Repository_of_URL ''git@down/z''))
     (EnableLFS (Repository_of_URL ''git@down/z'')) = Some (PlainError ''connection refused'')"
    using down by (simp add: Repository_of_URL_def)
  show ?thesis
    by (intro conjI) (fact miss' lookup a found down' b)+
qed

theorem denial_fails_mutations_and_filters_the_list_witness:
  "\<not> enf_Enforce exampleServer ''guest'' ResourceRepositories ActionCreate (Repository.Repo bobRepo) \<and>
   \<not> enf_Enforce exampleServer ''guest'' ResourceRepositories ActionUpdate (Repository.Repo bobRepo) \<and>
   \<not> enf_Enforce exampleServer ''guest'' ResourceRepositories ActionDelete ''git@x/y'' \<and>
   CreateRepository exampleServer ''guest''
       \<lparr>RepoCreateRequest.Repo = bobRepo, Upsert = True\<rparr> aliceStore =
     (Return (None, Some (StatusError PermissionDenied ''permission denied'')), aliceStore) \<and>
   UpdateRepository exampleServer ''guest'' \<lparr>RepoUpdateRequest.Repo = bobRepo\<rparr> aliceStore =
     ((None, Some (StatusError PermissionDenied ''permission denied'')), aliceStore) \<and>
   DeleteRepository exampleServer ''guest''
       \<lparr>RepoQuery.Repo = ''git@x/y'', ForceRefresh = False\<rparr> aliceStore =
     ((None, Some (StatusError PermissionDenied ''permission denied'')), aliceStore) \<and>
   map fst (repositories aliceStore) = [''git@x/y'', ''git@down/z''] \<and>
   \<not> enf_Enforce exampleServer ''reader'' ResourceRepositories ActionGet ''git@down/z'' \<and>
   db_fault exampleServer ListRepoURLsCall = None \<and>
   db_fault exampleServer (GetRepositoryCall ''git@x/y'') = None \<and>
   (\<exists>found s'. ListRepositories exampleServer ''reader''
                  \<lparr>RepoQuery.Repo = [], ForceRefresh = False\<rparr> aliceStore =
                ((Some \<lparr>Items = found\<rparr>, None), s') \<and>
              map Repository.Repo found = [''git@x/y''])"
proof -
  let ?c = "\<lparr>RepoCreateRequest.Repo = bobRepo, Upsert = True\<rparr>"
  let ?u = "\<lparr>RepoUpdateRequest.Repo = bobRepo\<rparr>"
  let ?d = "\<lparr>RepoQuery.Repo = ''git@x/y'', ForceRefresh = False\<rparr>"
  let ?q = "\<lparr>RepoQuery.Repo = [], ForceRefresh = False\<rparr>"
  note guest = denial_fails_mutations_and_filters_the_list
      [of exampleServer "''guest''" ?c aliceStore ?u ?d ?q, simplified]
  note reader = denial_fails_mutations_and_filters_the_list
      [of exampleServer "''reader''" ?c aliceStore ?u ?d ?q]
  have urls: "map fst (repositories aliceStore) = [''git@x/y'', ''git@down/z'']"
    by (simp add: aliceStore_def emptyStore_def)
  have allowed: "filter (\<lambda>url. enf_Enforce exampleServer ''reader'' ResourceRepositories ActionGet url)
      [''git@x/y'', ''git@down/z''] = [''git@x/y'']"
    by (simp add: exampleServer_def ResourceRepositories_def ActionGet_def)
  have no: "\<not> enf_Enforce exampleServer ''reader'' ResourceRepositories ActionGet ''git@down/z''"
    by (simp add: exampleServer_def)
  have f1: "db_fault exampleServer ListRepoURLsCall = None"
    and f2: "db_fault exampleServer (GetRepositoryCall ''git@x/y'') = None"
    by simp_all
  have reads: "\<forall>url\<in>set (map fst (repositories aliceStore)).
      enf_Enforce exampleServer ''reader'' ResourceRepositories ActionGet url \<longrightarrow>
      db_fault exampleServer (GetRepositoryCall url) = None"
    by simp
  from reader f1 reads obtain found s' where
    run: "ListRepositories exampleServer ''reader'' ?q aliceStore = ((Some \<lparr>Items = found\<rparr>, None), s')"
    by blast
  with reader have "map Repository.Repo (Items \<lparr>Items = found\<rparr>) =
      filter (\<lambda>url. enf_Enforce exampleServer ''reader'' ResourceRepositories ActionGet url)
        (map fst (repositories aliceStore))"
    by blast
  then have "map Repository.Repo found = [''git@x/y'']"
    unfolding urls allowed by simp
  with run have lst: "\<exists>found s'. ListRepositories exampleServer ''reader'' ?q aliceStore =
      ((Some \<lparr>Items = found\<rparr>, None), s') \<and> map Repository.Repo found = [''git@x/y'']"
    by (intro exI conjI)
  from guest have g1: "CreateRepository exampleServer ''guest'' ?c aliceStore =
      (Return (None, Some (StatusError PermissionDenied ''permission denied'')), aliceStore)"
    and g2: "UpdateRepository exampleServer ''guest'' ?u aliceStore =
      ((None, Some (StatusError PermissionDenied ''permission denied'')), aliceStore)"
    and g3: "DeleteRepository exampleServer ''guest'' ?d aliceStore =
      ((None, Some (StatusError PermissionDenied ''permission denied'')), aliceStore)"
    by blast+
  have d1: "\<not> enf_Enforce exampleServer ''guest'' ResourceRepositories ActionCreate
      (Repository.Repo bobRepo)"
    and d2: "\<not> enf_Enforce exampleServer ''guest'' ResourceRepositories ActionUpdate
      (Repository.Repo bobRepo)"
    and d3: "\<not> enf_Enforce exampleServer ''guest'' ResourceRepositories ActionDelete ''git@x/y''"
    by simp_all
  show ?thesis
    by (intro conjI) (fact d1 d2 d3 g1 g2 g3 urls no f1 f2 lst)+
qed

theorem responses_hold_only_the_URL_witness:
  "CreateRepository exampleServer ''admin''
       \<lparr>RepoCreateRequest.Repo = aliceRepo, Upsert = False\<rparr> emptyStore =
     (Return (Some (Repository_of_URL ''git@x/y''), None),
      snd (CreateRepository exampleServer ''admin''
             \<lparr>RepoCreateRequest.Repo = aliceRepo, Upsert = False\<rparr> emptyStore)) \<and>
   Username aliceRepo = ''alice'' \<and> Password aliceRepo = ''s3cret'' \<and>
   Username (Repository_of_URL ''git@x/y'') = [] \<and>
   Password (Repository_of_URL ''git@x/y'') = []"
proof -
  let ?q = "\<lparr>RepoCreateRequest.Repo = aliceRepo, Upsert = False\<rparr>"
  obtain res s' where run: "CreateRepository exampleServer ''admin'' ?q emptyStore = (res, s')"
    by (cases "CreateRepository exampleServer ''admin'' ?q emptyStore")
  have "fst (CreateRepository exampleServer ''admin'' ?q emptyStore)
      = Return (Some (Repository_of_URL ''git@x/y''), None)"
    using Create_new[of exampleServer "''admin''" ?q emptyStore] by simp
  with run have run': "CreateRepository exampleServer ''admin'' ?q emptyStore =
      (Return (Some (Repository_of_URL ''git@x/y''), None), s')"
    by simp
  from responses_hold_only_the_URL
    [of exampleServer "''admin''" ?q emptyStore "Repository_of_URL ''git@x/y''" s' _ "''git@x/y''"]
    run'
  have "Username (Repository_of_URL ''git@x/y'') = [] \<and> Password (Repository_of_URL ''git@x/y'') = []"
    by blast
  moreover have "Username aliceRepo = ''alice'' \<and> Password aliceRepo = ''s3cret''"
    by (simp add: aliceRepo_def)
  ultimately show ?thesis using run' by simp
qed

end
